theory Spec2Isabelle
  imports Complex_Main
begin

section \<open>Region-weighted mesh decimation (apps/portfolio/decimate.py)\<close>

text \<open>
  The script reads, of every vertex \<open>v\<close> of a mesh, only \<open>v.co.y\<close> and \<open>v.index\<close>.
  Coordinates and the command-line parameters are Python floats. The script is embedded
  twice. In this first layer the numbers are real numbers and the arithmetic is exact;
  it is used for the properties in which rounding and the special values play no part:
  the partition of the indices, the empty mesh, the face count, and the cutoff 1.0,
  where every operation of lines 40-41 is exact on finite doubles. The second layer,
  further down, computes in IEEE 754 binary64 as Python does, and is used for every
  property of the threshold that depends on it. The exceptions the script can raise
  while it processes one mesh are values of \<open>error\<close>: \<open>ValueError\<close> is what \<open>min()\<close> and
  \<open>max()\<close> raise on an empty sequence, \<open>ZeroDivisionError\<close> is what the division by
  \<open>original_faces\<close> in the last progress line raises.
\<close>

datatype error = ValueError | ZeroDivisionError

datatype vector = Vector (vec_x: real) (vec_y: real) (vec_z: real)

record mesh_vertex =
  index :: nat
  co :: vector

record mesh =
  vertices :: "mesh_vertex list"
  polygons :: "nat list list"

record object =
  data :: mesh
  vertex_groups :: "(string \<times> nat list) list"

text \<open>
  Python's \<open>min(iterable)\<close> and \<open>max(iterable)\<close>: the first item starts the running
  value, a later item replaces it only when it is strictly smaller (larger); an empty
  iterable raises \<open>ValueError\<close>.
\<close>

fun py_min :: "real list \<Rightarrow> error + real" where
  "py_min [] = Inl ValueError"
| "py_min (a # as) = Inr (foldl (\<lambda>m item. if item < m then item else m) a as)"

fun py_max :: "real list \<Rightarrow> error + real" where
  "py_max [] = Inl ValueError"
| "py_max (a # as) = Inr (foldl (\<lambda>m item. if item > m then item else m) a as)"

text \<open>Lines 40-41: \<open>y_range\<close> and \<open>face_threshold\<close> from the two bounds and the cutoff.\<close>

definition y_threshold :: "real \<Rightarrow> real \<Rightarrow> real \<Rightarrow> real" where
  "y_threshold min_y max_y face_cutoff_y =
     (let y_range = max_y - min_y
      in max_y - (y_range * (1 - face_cutoff_y)))"

text \<open>Lines 37-41: the bounds over all vertices, then the threshold.\<close>

definition face_threshold :: "mesh_vertex list \<Rightarrow> real \<Rightarrow> error + real" where
  "face_threshold verts face_cutoff_y =
     (case py_min (map (\<lambda>v. vec_y (co v)) verts) of
        Inl e \<Rightarrow> Inl e
      | Inr min_y \<Rightarrow>
          (case py_max (map (\<lambda>v. vec_y (co v)) verts) of
             Inl e \<Rightarrow> Inl e
           | Inr max_y \<Rightarrow> Inr (y_threshold min_y max_y face_cutoff_y)))"

text \<open>
  Lines 49-56: the classification loop, with the two lists it appends to as
  accumulators (\<open>face_verts\<close> first, \<open>body_verts\<close> second).
\<close>

fun classify :: "real \<Rightarrow> mesh_vertex list \<Rightarrow> nat list \<Rightarrow> nat list \<Rightarrow> nat list \<times> nat list" where
  "classify thr [] face_verts body_verts = (face_verts, body_verts)"
| "classify thr (v # vs) face_verts body_verts =
     (if vec_y (co v) \<ge> thr
      then classify thr vs (face_verts @ [index v]) body_verts
      else classify thr vs face_verts (body_verts @ [index v]))"

text \<open>Lines 37-56 together: the pair \<open>(face_verts, body_verts)\<close> of a vertex list.\<close>

definition regions :: "mesh_vertex list \<Rightarrow> real \<Rightarrow> error + nat list \<times> nat list" where
  "regions verts face_cutoff_y =
     (case face_threshold verts face_cutoff_y of
        Inl e \<Rightarrow> Inl e
      | Inr thr \<Rightarrow> Inr (classify thr verts [] []))"

text \<open>
  Lines 32-83, the body of the loop over the mesh objects. Applying a decimate modifier
  is Blender's work; it is the parameter \<open>modifier_apply\<close>, given the decimate type,
  the ratio, the name of the vertex group and the object. The result is the object as
  the body leaves it and the exception that ended the body, if any: the empty vertex
  list fails at \<open>min\<close> before anything is changed, and a mesh without polygons fails at
  the division in the last progress line, after both passes.
\<close>

definition process_mesh ::
  "(string \<Rightarrow> real \<Rightarrow> string \<Rightarrow> object \<Rightarrow> object) \<Rightarrow> real \<Rightarrow> real \<Rightarrow> real \<Rightarrow> object
     \<Rightarrow> object \<times> error option" where
  "process_mesh modifier_apply body_ratio face_ratio face_cutoff_y obj =
     (let original_faces = length (polygons (data obj))
      in case regions (vertices (data obj)) face_cutoff_y of
           Inl e \<Rightarrow> (obj, Some e)
         | Inr (face_verts, body_verts) \<Rightarrow>
             (let obj1 = obj\<lparr>vertex_groups :=
                            vertex_groups obj @ [(''Face'', face_verts), (''Body'', body_verts)]\<rparr>;
                  obj2 = modifier_apply ''COLLAPSE'' body_ratio ''Body'' obj1;
                  obj3 = modifier_apply ''COLLAPSE'' face_ratio ''Face'' obj2;
                  new_faces = length (polygons (data obj3))
              in if original_faces = 0 then (obj3, Some ZeroDivisionError)
                 else (obj3, None)))"

text \<open>
  The threshold in the words of the specification, from the minimum and the maximum of
  the vertex coordinates along the axis; it is compared below with \<open>face_threshold\<close>.
\<close>

definition spec_threshold :: "mesh_vertex list \<Rightarrow> real \<Rightarrow> real" where
  "spec_threshold verts face_cutoff =
     (let min_y = Min (set (map (\<lambda>v. vec_y (co v)) verts));
          max_y = Max (set (map (\<lambda>v. vec_y (co v)) verts))
      in max_y - (max_y - min_y) * (1 - face_cutoff))"

subsection \<open>Python floats\<close>

text \<open>
  A Python float is an IEEE 754 binary64 value: a finite double, an infinity or a nan.
  The two zeros are not told apart (\<open>Fin 0\<close> stands for both): subtraction,
  multiplication and the comparisons, which is all the script does with floats, give
  the same results for both up to the sign of a zero.
\<close>

datatype pyfloat = Fin real | PInf | NInf | NaN

text \<open>
  Rounding to nearest, ties to even. \<open>bexp x\<close> is the binary exponent of the binade of
  \<open>x\<close>, kept between \<open>-1022\<close> (the subnormals) and \<open>1023\<close>: it is found by trying
  \<open>1023, 1022, \<dots>\<close> in turn. The spacing of the doubles around \<open>x\<close> is
  \<open>2 powi (bexp x - 52)\<close>; \<open>rval x\<close> is the multiple of it nearest to \<open>x\<close>, the even one
  when two are equally near; \<open>round64 x\<close> is that value, or an infinity when it is beyond
  the largest double. A real number is a double when rounding leaves it unchanged.
\<close>

fun bexp_from :: "nat \<Rightarrow> real \<Rightarrow> int" where
  "bexp_from 0 a = - 1022"
| "bexp_from (Suc n) a = (if 2 powi (int n - 1021) \<le> a then int n - 1021 else bexp_from n a)"

definition bexp :: "real \<Rightarrow> int" where
  "bexp x = bexp_from 2045 \<bar>x\<bar>"

definition round_even :: "real \<Rightarrow> int" where
  "round_even y =
     (let f = \<lfloor>y\<rfloor>
      in if y - of_int f < 1 / 2 then f
         else if 1 / 2 < y - of_int f then f + 1
         else if even f then f else f + 1)"

definition rval :: "real \<Rightarrow> real" where
  "rval x = (let q = 2 powi (bexp x - 52) in of_int (round_even (x / q)) * q)"

definition round64 :: "real \<Rightarrow> pyfloat" where
  "round64 x =
     (let r = rval x
      in if 2 ^ 1024 \<le> r then PInf else if r \<le> - (2 ^ 1024) then NInf else Fin r)"

definition is_double :: "real \<Rightarrow> bool" where
  "is_double x = (round64 x = Fin x)"

text \<open>
  Python's \<open>a - b\<close> and \<open>a * b\<close> on floats (neither raises), and the comparisons
  \<open>a <= b\<close>, \<open>a < b\<close>, \<open>a >= b\<close>, \<open>a > b\<close>, all of which are false when an operand
  is a nan.
\<close>

fun fsub :: "pyfloat \<Rightarrow> pyfloat \<Rightarrow> pyfloat" where
  "fsub NaN b = NaN"
| "fsub a NaN = NaN"
| "fsub PInf PInf = NaN"
| "fsub NInf NInf = NaN"
| "fsub PInf b = PInf"
| "fsub NInf b = NInf"
| "fsub (Fin x) PInf = NInf"
| "fsub (Fin x) NInf = PInf"
| "fsub (Fin x) (Fin y) = round64 (x - y)"

fun fmul :: "pyfloat \<Rightarrow> pyfloat \<Rightarrow> pyfloat" where
  "fmul NaN b = NaN"
| "fmul a NaN = NaN"
| "fmul PInf PInf = PInf"
| "fmul PInf NInf = NInf"
| "fmul NInf PInf = NInf"
| "fmul NInf NInf = PInf"
| "fmul PInf (Fin y) = (if y = 0 then NaN else if 0 < y then PInf else NInf)"
| "fmul NInf (Fin y) = (if y = 0 then NaN else if 0 < y then NInf else PInf)"
| "fmul (Fin x) PInf = (if x = 0 then NaN else if 0 < x then PInf else NInf)"
| "fmul (Fin x) NInf = (if x = 0 then NaN else if 0 < x then NInf else PInf)"
| "fmul (Fin x) (Fin y) = round64 (x * y)"

fun fle :: "pyfloat \<Rightarrow> pyfloat \<Rightarrow> bool" where
  "fle NaN b = False"
| "fle a NaN = False"
| "fle NInf b = True"
| "fle a PInf = True"
| "fle (Fin x) (Fin y) = (x \<le> y)"
| "fle a b = False"

fun flt :: "pyfloat \<Rightarrow> pyfloat \<Rightarrow> bool" where
  "flt NaN b = False"
| "flt a NaN = False"
| "flt PInf b = False"
| "flt a NInf = False"
| "flt (Fin x) (Fin y) = (x < y)"
| "flt a b = True"

definition fge :: "pyfloat \<Rightarrow> pyfloat \<Rightarrow> bool" where
  "fge a b = fle b a"

definition fgt :: "pyfloat \<Rightarrow> pyfloat \<Rightarrow> bool" where
  "fgt a b = flt b a"

subsection \<open>The script on Python floats\<close>

text \<open>
  Lines 37-56 again, computing as Python does. A vertex is its \<open>index\<close> and its
  \<open>co.y\<close>; the functions below are \<open>py_min\<close>, \<open>py_max\<close>, \<open>y_threshold\<close>,
  \<open>face_threshold\<close>, \<open>classify\<close> and \<open>regions\<close> with the float operations in place
  of the exact ones.
\<close>

record vertex64 =
  index64 :: nat
  co_y64 :: pyfloat

fun py_min64 :: "pyfloat list \<Rightarrow> error + pyfloat" where
  "py_min64 [] = Inl ValueError"
| "py_min64 (a # as) = Inr (foldl (\<lambda>m item. if flt item m then item else m) a as)"

fun py_max64 :: "pyfloat list \<Rightarrow> error + pyfloat" where
  "py_max64 [] = Inl ValueError"
| "py_max64 (a # as) = Inr (foldl (\<lambda>m item. if fgt item m then item else m) a as)"

definition y_threshold64 :: "pyfloat \<Rightarrow> pyfloat \<Rightarrow> pyfloat \<Rightarrow> pyfloat" where
  "y_threshold64 min_y max_y face_cutoff_y =
     (let y_range = fsub max_y min_y
      in fsub max_y (fmul y_range (fsub (Fin 1) face_cutoff_y)))"

definition face_threshold64 :: "vertex64 list \<Rightarrow> pyfloat \<Rightarrow> error + pyfloat" where
  "face_threshold64 verts face_cutoff_y =
     (case py_min64 (map co_y64 verts) of
        Inl e \<Rightarrow> Inl e
      | Inr min_y \<Rightarrow>
          (case py_max64 (map co_y64 verts) of
             Inl e \<Rightarrow> Inl e
           | Inr max_y \<Rightarrow> Inr (y_threshold64 min_y max_y face_cutoff_y)))"

fun classify64 ::
  "pyfloat \<Rightarrow> vertex64 list \<Rightarrow> nat list \<Rightarrow> nat list \<Rightarrow> nat list \<times> nat list" where
  "classify64 thr [] face_verts body_verts = (face_verts, body_verts)"
| "classify64 thr (v # vs) face_verts body_verts =
     (if fge (co_y64 v) thr
      then classify64 thr vs (face_verts @ [index64 v]) body_verts
      else classify64 thr vs face_verts (body_verts @ [index64 v]))"

definition regions64 :: "vertex64 list \<Rightarrow> pyfloat \<Rightarrow> error + nat list \<times> nat list" where
  "regions64 verts face_cutoff_y =
     (case face_threshold64 verts face_cutoff_y of
        Inl e \<Rightarrow> Inl e
      | Inr thr \<Rightarrow> Inr (classify64 thr verts [] []))"

section \<open>Registering files in the Xcode project (apps/workout/add_files_to_xcode.py)\<close>

text \<open>
  The file system and the pbxproj library are outside the script. They are the fields
  of an environment: \<open>path_exists\<close> is \<open>Path.exists\<close>; \<open>load\<close> reads a project from the
  content of the project file and is \<open>None\<close> when \<open>XcodeProject.load\<close> raises;
  \<open>get_files_by_name\<close> returns the file references of that name; \<open>add_file\<close> returns
  the project after the call and whether the call returned (\<open>False\<close>: it raised);
  \<open>save\<close> returns the content of the project file after the call and whether the call
  returned. \<open>'p\<close> is the type of a loaded project, \<open>'d\<close> that of the file's content.
\<close>

record ('p, 'd) env =
  path_exists :: "string \<Rightarrow> bool"
  load :: "'d \<Rightarrow> 'p option"
  get_files_by_name :: "'p \<Rightarrow> string \<Rightarrow> string list"
  add_file :: "'p \<Rightarrow> string \<Rightarrow> string \<Rightarrow> 'p \<times> bool"
  save :: "'p \<Rightarrow> 'd \<Rightarrow> 'd \<times> bool"

definition NEW_FILES :: "string list" where
  "NEW_FILES =
     [''Services/WorkoutHistoryService.swift'',
      ''Services/ContextResolver.swift'',
      ''Services/WorkoutActionStack.swift'',
      ''Services/ExerciseReplacementService.swift'',
      ''Views/Components/HistoricalContextView.swift'',
      ''Views/Components/SupersetIndicator.swift'',
      ''Parsers/CorrectionCommandParser.swift'',
      ''Managers/LLMWorkoutParserEnhanced.swift'',
      ''Managers/WorkoutManagerExtensions.swift'']"

definition TARGET_NAME :: string where
  "TARGET_NAME = ''phoneless-hevy Watch App''"

definition PROJECT_PATH :: "string \<Rightarrow> string" where
  "PROJECT_PATH script_dir = script_dir @ ''/phoneless-hevy.xcodeproj/project.pbxproj''"

definition WATCH_APP_DIR :: "string \<Rightarrow> string" where
  "WATCH_APP_DIR script_dir = script_dir @ ''/phoneless-hevy Watch App''"

text \<open>\<open>Path.name\<close>: the last component of a path.\<close>

definition path_name :: "string \<Rightarrow> string" where
  "path_name p = rev (takeWhile (\<lambda>c. c \<noteq> CHR ''/'') (rev p))"

text \<open>
  Lines 67-92: the loop over the listed files, on the project and the two counters.
  A file that is missing changes nothing; one whose name the project already has is
  counted as skipped; otherwise \<open>add_file\<close> is called and the file is counted as added
  when the call returns.
\<close>

fun add_loop ::
  "('p, 'd) env \<Rightarrow> string \<Rightarrow> string list \<Rightarrow> 'p \<Rightarrow> nat \<Rightarrow> nat \<Rightarrow> 'p \<times> nat \<times> nat" where
  "add_loop E script_dir [] project added_count skipped_count =
     (project, added_count, skipped_count)"
| "add_loop E script_dir (file_path # rest) project added_count skipped_count =
     (let full_path = WATCH_APP_DIR script_dir @ ''/'' @ file_path
      in if \<not> path_exists E full_path
         then add_loop E script_dir rest project added_count skipped_count
         else if get_files_by_name E project (path_name full_path) \<noteq> []
         then add_loop E script_dir rest project added_count (skipped_count + 1)
         else (case add_file E project (''phoneless-hevy Watch App/'' @ file_path) TARGET_NAME of
                 (project', True) \<Rightarrow>
                   add_loop E script_dir rest project' (added_count + 1) skipped_count
               | (project', False) \<Rightarrow>
                   add_loop E script_dir rest project' added_count skipped_count))"

text \<open>
  What a run of \<open>add_files_to_project\<close> leaves: the value it returns, the content of
  the project file, and how many times \<open>project.save()\<close> was called.
\<close>

record 'd outcome =
  returned :: bool
  project_file :: 'd
  saves :: nat

definition add_files_to_project :: "('p, 'd) env \<Rightarrow> string \<Rightarrow> 'd \<Rightarrow> 'd outcome" where
  "add_files_to_project E script_dir disk =
     (if \<not> path_exists E (PROJECT_PATH script_dir)
      then \<lparr>returned = False, project_file = disk, saves = 0\<rparr>
      else (case load E disk of
              None \<Rightarrow> \<lparr>returned = False, project_file = disk, saves = 0\<rparr>
            | Some project \<Rightarrow>
                (case add_loop E script_dir NEW_FILES project 0 0 of
                   (project', added_count, skipped_count) \<Rightarrow>
                     if added_count > 0
                     then (case save E project' disk of
                             (disk', True) \<Rightarrow> \<lparr>returned = True, project_file = disk', saves = 1\<rparr>
                           | (disk', False) \<Rightarrow> \<lparr>returned = False, project_file = disk', saves = 1\<rparr>)
                     else \<lparr>returned = True, project_file = disk, saves = 0\<rparr>)))"

section \<open>Properties of the decimation script\<close>

subsection \<open>The bounds are the minimum and the maximum\<close>

lemma foldl_min_fold: "foldl (\<lambda>m item. if item < m then item else m) a as = fold min as (a::real)"
  by (induction as arbitrary: a) (simp_all add: min_def not_less)

lemma foldl_max_fold: "foldl (\<lambda>m item. if item > m then item else m) a as = fold max as (a::real)"
  by (induction as arbitrary: a) (simp_all add: max_def not_less)

lemma py_min_Min: "ys \<noteq> [] \<Longrightarrow> py_min ys = Inr (Min (set ys))"
proof (cases ys)
  case Nil
  assume "ys \<noteq> []"
  with Nil show ?thesis by simp
next
  case (Cons a as)
  then show ?thesis by (simp only: py_min.simps foldl_min_fold Min.set_eq_fold)
qed

lemma py_max_Max: "ys \<noteq> [] \<Longrightarrow> py_max ys = Inr (Max (set ys))"
proof (cases ys)
  case Nil
  assume "ys \<noteq> []"
  with Nil show ?thesis by simp
next
  case (Cons a as)
  then show ?thesis by (simp only: py_max.simps foldl_max_fold Max.set_eq_fold)
qed

subsection \<open>The loop and the threshold in closed form\<close>

lemma classify_filter:
  "classify thr vs face_verts body_verts =
     (face_verts @ map index (filter (\<lambda>v. vec_y (co v) \<ge> thr) vs),
      body_verts @ map index (filter (\<lambda>v. vec_y (co v) < thr) vs))"
  by (induction vs arbitrary: face_verts body_verts) (simp_all add: not_le)

lemma face_threshold_nonempty:
  "verts \<noteq> [] \<Longrightarrow> face_threshold verts c = Inr (spec_threshold verts c)"
  by (simp add: face_threshold_def spec_threshold_def y_threshold_def py_min_Min py_max_Max Let_def)

lemma face_threshold_empty: "face_threshold [] c = Inl ValueError"
  by (simp add: face_threshold_def)

lemma regions_nonempty:
  "verts \<noteq> [] \<Longrightarrow>
   regions verts c =
     Inr (map index (filter (\<lambda>v. vec_y (co v) \<ge> spec_threshold verts c) verts),
          map index (filter (\<lambda>v. vec_y (co v) < spec_threshold verts c) verts))"
  by (simp add: regions_def face_threshold_nonempty classify_filter)

subsection \<open>The two regions partition the vertex indices\<close>

text \<open>
  Claim C1. For a mesh with at least one vertex and any cutoff, the classification
  returns two index lists whose sets are disjoint and together are all vertex indices
  of the mesh. Blender numbers the vertices of a mesh by their position, so no two
  vertices carry the same \<open>index\<close>; that is the second assumption.
\<close>

theorem regions_partition:
  assumes "verts \<noteq> []" and "distinct (map index verts)"
  shows "\<exists>face_verts body_verts.
           regions verts face_cutoff = Inr (face_verts, body_verts) \<and>
           set face_verts \<inter> set body_verts = {} \<and>
           set face_verts \<union> set body_verts = index ` set verts"
proof -
  let ?t = "spec_threshold verts face_cutoff"
  let ?f = "map index (filter (\<lambda>v. vec_y (co v) \<ge> ?t) verts)"
  let ?b = "map index (filter (\<lambda>v. vec_y (co v) < ?t) verts)"
  have inj: "inj_on index (set verts)"
    using assms(2) by (simp add: distinct_map)
  have r: "regions verts face_cutoff = Inr (?f, ?b)"
    using assms(1) by (rule regions_nonempty)
  have d: "set ?f \<inter> set ?b = {}"
  proof -
    { fix i assume "i \<in> set ?f" and "i \<in> set ?b"
      then obtain v w where v: "v \<in> set verts" "vec_y (co v) \<ge> ?t" "i = index v"
        and w: "w \<in> set verts" "vec_y (co w) < ?t" "i = index w"
        by auto
      from inj v(1) w(1) v(3) w(3) have "v = w" by (auto dest: inj_onD)
      with v(2) w(2) have False by simp }
    then show ?thesis by blast
  qed
  have u: "set ?f \<union> set ?b = index ` set verts"
  proof -
    have "{v \<in> set verts. vec_y (co v) \<ge> ?t} \<union> {v \<in> set verts. vec_y (co v) < ?t} = set verts"
      by auto
    then have "index ` {v \<in> set verts. vec_y (co v) \<ge> ?t} \<union> index ` {v \<in> set verts. vec_y (co v) < ?t}
                 = index ` set verts"
      by (simp only: image_Un [symmetric])
    then show ?thesis by simp
  qed
  from r d u show ?thesis by blast
qed

theorem regions_partition_witness:
  "[\<lparr>index = 0, co = Vector 0 0 0\<rparr>, \<lparr>index = 1, co = Vector 0 2 0\<rparr>] \<noteq> [] \<and>
   distinct (map index [\<lparr>index = 0, co = Vector 0 0 0\<rparr>, \<lparr>index = 1, co = Vector 0 2 0\<rparr>]) \<and>
   (\<exists>face_verts body_verts.
      regions [\<lparr>index = 0, co = Vector 0 0 0\<rparr>, \<lparr>index = 1, co = Vector 0 2 0\<rparr>] (1/2)
        = Inr (face_verts, body_verts) \<and>
      set face_verts \<inter> set body_verts = {} \<and>
      set face_verts \<union> set body_verts
        = index ` set [\<lparr>index = 0, co = Vector 0 0 0\<rparr>, \<lparr>index = 1, co = Vector 0 2 0\<rparr>])"
proof -
  have h1: "[\<lparr>index = 0, co = Vector 0 0 0\<rparr>, \<lparr>index = 1, co = Vector 0 2 0\<rparr>] \<noteq> []" by simp
  have h2: "distinct (map index [\<lparr>index = 0, co = Vector 0 0 0\<rparr>, \<lparr>index = 1, co = Vector 0 2 0\<rparr>])"
    by simp
  show ?thesis using h1 h2 regions_partition [OF h1 h2, of "1/2"] by simp
qed

subsection \<open>The cutoff 1\<close>






subsection \<open>Both ratios 1\<close>

text \<open>
  Claim C7. If applying the collapse decimate modifier with ratio 1 keeps the number of
  polygons of an object, whatever the vertex group, then processing a mesh with
  \<open>body_ratio = 1\<close> and \<open>face_ratio = 1\<close> leaves its number of polygons unchanged, for
  every mesh and cutoff, also when the body ends with an exception.
\<close>

theorem identity_ratios_keep_face_count:
  assumes "\<And>g ob. length (polygons (data (modifier_apply ''COLLAPSE'' 1 g ob)))
                     = length (polygons (data ob))"
  shows "length (polygons (data (fst (process_mesh modifier_apply 1 1 face_cutoff obj))))
           = length (polygons (data obj))"
proof (cases "regions (vertices (data obj)) face_cutoff")
  case (Inl e)
  then show ?thesis by (simp add: process_mesh_def)
next
  case (Inr r)
  then show ?thesis
    by (cases r) (simp add: process_mesh_def Let_def assms)
qed

theorem identity_ratios_keep_face_count_witness:
  "(\<forall>g ob. length (polygons (data
       ((\<lambda>t r g ob. if r = (1::real) then ob else ob\<lparr>data := (data ob)\<lparr>polygons := []\<rparr>\<rparr>)
          ''COLLAPSE'' 1 g ob)))
      = length (polygons (data ob))) \<and>
   length (polygons (data (fst (process_mesh
       (\<lambda>t r g ob. if r = 1 then ob else ob\<lparr>data := (data ob)\<lparr>polygons := []\<rparr>\<rparr>) 1 1 (1/2)
       \<lparr>data = \<lparr>vertices = [\<lparr>index = 0, co = Vector 0 0 0\<rparr>, \<lparr>index = 1, co = Vector 1 2 0\<rparr>,
                                \<lparr>index = 2, co = Vector 2 0 0\<rparr>],
                   polygons = [[0, 1, 2]]\<rparr>,
         vertex_groups = []\<rparr>)))) = 1"
proof -
  have h: "\<And>g ob. length (polygons (data
       ((\<lambda>t r g ob. if r = (1::real) then ob else ob\<lparr>data := (data ob)\<lparr>polygons := []\<rparr>\<rparr>)
          ''COLLAPSE'' 1 g ob)))
      = length (polygons (data ob))"
    by simp
  show ?thesis
    using identity_ratios_keep_face_count [of "\<lambda>t r g ob. if r = 1 then ob else ob\<lparr>data := (data ob)\<lparr>polygons := []\<rparr>\<rparr>" "1/2"
        "\<lparr>data = \<lparr>vertices = [\<lparr>index = 0, co = Vector 0 0 0\<rparr>, \<lparr>index = 1, co = Vector 1 2 0\<rparr>,
                                \<lparr>index = 2, co = Vector 2 0 0\<rparr>],
                   polygons = [[0, 1, 2]]\<rparr>,
         vertex_groups = []\<rparr>", OF h]
    by simp
qed

subsection \<open>The empty mesh\<close>

text \<open>
  Claim C8. Processing a mesh fails with the exception of the empty vertex sequence
  (Python's \<open>ValueError\<close> from \<open>min()\<close>, which the specification calls
  \<open>EmptyMeshError\<close>) exactly when the mesh has no vertices; then the object is left as
  it was, and with at least one vertex that exception is not raised.
\<close>

theorem empty_mesh_error:
  "(snd (process_mesh modifier_apply body_ratio face_ratio face_cutoff obj) = Some ValueError)
     = (vertices (data obj) = []) \<and>
   (if vertices (data obj) = []
    then process_mesh modifier_apply body_ratio face_ratio face_cutoff obj = (obj, Some ValueError)
    else snd (process_mesh modifier_apply body_ratio face_ratio face_cutoff obj) \<noteq> Some ValueError)"
proof (cases "vertices (data obj) = []")
  case True
  then show ?thesis
    by (simp add: process_mesh_def regions_def face_threshold_empty)
next
  case False
  then show ?thesis
    by (simp add: process_mesh_def regions_nonempty Let_def)
qed

theorem empty_mesh_error_witness:
  "process_mesh (\<lambda>t r g ob. ob) (1/50) (3/20) (1/2)
     \<lparr>data = \<lparr>vertices = [], polygons = []\<rparr>, vertex_groups = []\<rparr>
     = (\<lparr>data = \<lparr>vertices = [], polygons = []\<rparr>, vertex_groups = []\<rparr>, Some ValueError) \<and>
   snd (process_mesh (\<lambda>t r g ob. ob) (1/50) (3/20) (1/2)
     \<lparr>data = \<lparr>vertices = [\<lparr>index = 0, co = Vector 0 0 0\<rparr>, \<lparr>index = 1, co = Vector 1 2 0\<rparr>,
                             \<lparr>index = 2, co = Vector 2 0 0\<rparr>],
                polygons = [[0, 1, 2]]\<rparr>,
      vertex_groups = []\<rparr>) \<noteq> Some ValueError"
  using empty_mesh_error [of "\<lambda>t r g ob. ob" "1/50" "3/20" "1/2"
          "\<lparr>data = \<lparr>vertices = [], polygons = []\<rparr>, vertex_groups = []\<rparr>"]
        empty_mesh_error [of "\<lambda>t r g ob. ob" "1/50" "3/20" "1/2"
          "\<lparr>data = \<lparr>vertices = [\<lparr>index = 0, co = Vector 0 0 0\<rparr>, \<lparr>index = 1, co = Vector 1 2 0\<rparr>,
                                  \<lparr>index = 2, co = Vector 2 0 0\<rparr>],
                     polygons = [[0, 1, 2]]\<rparr>,
            vertex_groups = []\<rparr>"]
  by simp

section \<open>Properties of rounding to binary64\<close>

subsection \<open>The exponent\<close>

lemma bexp_from_range: "- 1022 \<le> bexp_from n a \<and> bexp_from n a \<le> int n - 1022"
  by (induction n) auto

lemma bexp_from_lower:
  "2 powi (- 1022) \<le> a \<or> bexp_from n a \<noteq> - 1022 \<Longrightarrow> 2 powi (bexp_from n a) \<le> a"
proof (induction n)
  case 0
  then show ?case by simp
next
  case (Suc n)
  show ?case
  proof (cases "2 powi (int n - 1021) \<le> a")
    case True
    then show ?thesis by simp
  next
    case False
    with Suc show ?thesis by simp
  qed
qed

lemma bexp_from_upper:
  "a < 2 powi (bexp_from n a + 1) \<or> bexp_from n a = int n - 1022"
proof (induction n)
  case 0
  show ?case by simp
next
  case (Suc n)
  show ?case
  proof (cases "2 powi (int n - 1021) \<le> a")
    case True
    then show ?thesis by simp
  next
    case False
    then have lt: "a < 2 powi (int n - 1021)" by simp
    from Suc have "a < 2 powi (bexp_from n a + 1)"
    proof
      assume "a < 2 powi (bexp_from n a + 1)" then show ?thesis .
    next
      assume "bexp_from n a = int n - 1022"
      then have e: "int n - 1021 = bexp_from n a + 1" by simp
      from lt show ?thesis unfolding e .
    qed
    with False show ?thesis by simp
  qed
qed

lemma bexp_from_mono: "a \<le> b \<Longrightarrow> bexp_from n a \<le> bexp_from n b"
proof (induction n)
  case 0
  show ?case by simp
next
  case (Suc n)
  have r: "bexp_from n a \<le> int n - 1022" using bexp_from_range [of n a] by simp
  show ?case
  proof (cases "2 powi (int n - 1021) \<le> a")
    case True
    with Suc.prems have "2 powi (int n - 1021) \<le> b" by simp
    with True show ?thesis by simp
  next
    case False
    show ?thesis
    proof (cases "2 powi (int n - 1021) \<le> b")
      case True
      with False r show ?thesis by simp
    next
      case nb: False
      with False Suc show ?thesis by simp
    qed
  qed
qed

lemma bexp_range: "- 1022 \<le> bexp x" "bexp x \<le> 1023"
  using bexp_from_range [of 2045 "\<bar>x\<bar>"] by (simp_all add: bexp_def)

lemma bexp_lower: "2 powi (- 1022) \<le> \<bar>x\<bar> \<or> bexp x \<noteq> - 1022 \<Longrightarrow> 2 powi (bexp x) \<le> \<bar>x\<bar>"
  unfolding bexp_def by (rule bexp_from_lower)

lemma bexp_upper: "\<bar>x\<bar> < 2 powi (bexp x + 1) \<or> bexp x = 1023"
  using bexp_from_upper [of "\<bar>x\<bar>" 2045] by (simp add: bexp_def)

lemma bexp_mono: "\<bar>x\<bar> \<le> \<bar>y\<bar> \<Longrightarrow> bexp x \<le> bexp y"
  unfolding bexp_def by (rule bexp_from_mono)

lemma bexp_minus [simp]: "bexp (- x) = bexp x"
  by (simp add: bexp_def)

lemma powi2_less_iff: "(2::real) powi m < 2 powi n \<Longrightarrow> m < n"
proof (rule ccontr)
  assume a: "(2::real) powi m < 2 powi n" and "\<not> m < n"
  then have "n \<le> m" by simp
  then have "(2::real) powi n \<le> 2 powi m" by (intro power_int_increasing) simp_all
  with a show False by simp
qed

lemma bexp_eqI:
  assumes "- 1022 \<le> e" and "e \<le> 1023" and "2 powi e \<le> \<bar>x\<bar>" and "\<bar>x\<bar> < 2 powi (e + 1)"
  shows "bexp x = e"
proof -
  have "(2::real) powi (- 1022) \<le> 2 powi e"
    using assms(1) by (intro power_int_increasing) simp_all
  with assms(3) have lo: "2 powi (bexp x) \<le> \<bar>x\<bar>"
    by (intro bexp_lower) simp
  from lo assms(4) have "(2::real) powi (bexp x) < 2 powi (e + 1)" by simp
  then have 1: "bexp x < e + 1" by (rule powi2_less_iff)
  have "bexp x = 1023 \<or> e < bexp x + 1"
  proof (cases "bexp x = 1023")
    case True then show ?thesis by simp
  next
    case False
    with bexp_upper [of x] have "\<bar>x\<bar> < 2 powi (bexp x + 1)" by simp
    with assms(3) have "(2::real) powi e < 2 powi (bexp x + 1)" by simp
    then have "e < bexp x + 1" by (rule powi2_less_iff)
    then show ?thesis by simp
  qed
  with 1 assms(2) show ?thesis by auto
qed

lemma bexp_subnormal:
  assumes "\<bar>x\<bar> < 2 powi (- 1022)"
  shows "bexp x = - 1022"
proof (rule ccontr)
  assume ne: "bexp x \<noteq> - 1022"
  then have "2 powi (bexp x) \<le> \<bar>x\<bar>" by (intro bexp_lower) simp
  with assms have "(2::real) powi (bexp x) < 2 powi (- 1022)" by simp
  then have "bexp x < - 1022" by (rule powi2_less_iff)
  with bexp_range(1) [of x] show False by simp
qed

lemma bexp_top:
  assumes "2 ^ 1023 \<le> \<bar>x\<bar>"
  shows "bexp x = 1023"
proof -
  have "bexp (2 powi 1023) = 1023" by (rule bexp_eqI) simp_all
  moreover have "\<bar>(2::real) powi 1023\<bar> \<le> \<bar>x\<bar>" using assms by simp
  then have "bexp (2 powi 1023) \<le> bexp x" by (rule bexp_mono)
  ultimately show ?thesis using bexp_range(2) [of x] by simp
qed

subsection \<open>Rounding to the nearest integer, ties to even\<close>

lemma round_even_of_int [simp]: "round_even (of_int n) = n"
  by (simp add: round_even_def)

lemma round_even_bounds: "\<lfloor>y\<rfloor> \<le> round_even y" "round_even y \<le> \<lfloor>y\<rfloor> + 1"
  by (simp_all add: round_even_def Let_def)

lemma round_even_mono:
  assumes "y \<le> z"
  shows "round_even y \<le> round_even z"
proof (cases "\<lfloor>y\<rfloor> = \<lfloor>z\<rfloor>")
  case True
  with assms show ?thesis
    by (auto simp: round_even_def Let_def)
next
  case False
  with assms have "\<lfloor>y\<rfloor> < \<lfloor>z\<rfloor>" using floor_mono [of y z] by simp
  then have "\<lfloor>y\<rfloor> + 1 \<le> \<lfloor>z\<rfloor>" by simp
  with round_even_bounds(2) [of y] round_even_bounds(1) [of z] show ?thesis by linarith
qed

lemma round_even_minus: "round_even (- y) = - round_even y"
proof (cases "y = of_int \<lfloor>y\<rfloor>")
  case True
  then obtain n where "y = of_int n" ..
  then have "- y = of_int (- n)" by simp
  with \<open>y = of_int n\<close> show ?thesis by (simp only: round_even_of_int)
next
  case False
  then have lt: "of_int \<lfloor>y\<rfloor> < y" using of_int_floor_le [of y] by linarith
  have fl: "\<lfloor>- y\<rfloor> = - \<lfloor>y\<rfloor> - 1"
  proof (rule floor_unique)
    show "of_int (- \<lfloor>y\<rfloor> - 1) \<le> - y" using floor_correct [of y] by simp linarith
    show "- y < of_int (- \<lfloor>y\<rfloor> - 1) + 1" using lt by simp
  qed
  have ev: "even (- \<lfloor>y\<rfloor> - 1) = odd \<lfloor>y\<rfloor>" by simp
  show ?thesis
    unfolding round_even_def Let_def fl ev
    using lt by (auto simp: algebra_simps)
qed

lemma round_even_nonneg: "0 \<le> y \<Longrightarrow> 0 \<le> round_even y"
  using round_even_mono [of 0 y] round_even_of_int [of 0] by simp

lemma round_even_ge: "of_int n \<le> y \<Longrightarrow> n \<le> round_even y"
  using round_even_mono [of "of_int n" y] by simp

lemma round_even_le: "y \<le> of_int n \<Longrightarrow> round_even y \<le> n"
  using round_even_mono [of y "of_int n"] by simp

lemma round_even_0 [simp]: "round_even 0 = 0"
  using round_even_of_int [of 0] by simp

lemma round_even_lt_half:
  assumes "y < of_int n - 1 / 2"
  shows "round_even y \<le> n - 1"
proof -
  have "y < of_int n" using assms by simp
  then have fl: "\<lfloor>y\<rfloor> < n" by (simp add: floor_less_iff)
  show ?thesis
  proof (cases "\<lfloor>y\<rfloor> = n - 1")
    case True
    then have "y - of_int \<lfloor>y\<rfloor> < 1 / 2" using assms by simp
    then have "round_even y = \<lfloor>y\<rfloor>" by (simp add: round_even_def Let_def)
    with True show ?thesis by simp
  next
    case False
    with fl have "\<lfloor>y\<rfloor> + 1 \<le> n - 1" by simp
    with round_even_bounds(2) [of y] show ?thesis by linarith
  qed
qed

subsection \<open>Rounding is odd, monotone and idempotent\<close>

lemma rval_unfold: "rval x = of_int (round_even (x / 2 powi (bexp x - 52))) * 2 powi (bexp x - 52)"
  by (simp only: rval_def Let_def)

lemma rval_minus: "rval (- x) = - rval x"
  by (simp add: rval_def Let_def round_even_minus)

lemma rval_nonneg: "0 \<le> x \<Longrightarrow> 0 \<le> rval x"
  by (simp add: rval_def Let_def round_even_nonneg)

lemma rval_0 [simp]: "rval 0 = 0"
  by (simp add: rval_def Let_def)

lemma q_pos: "0 < (2::real) powi k"
  by simp

lemma powi_52: "(2::real) powi e = 2 ^ 52 * 2 powi (e - 52)"
proof -
  have eq: "e = 52 + (e - 52)" by simp
  have "(2::real) powi (52 + (e - 52)) = 2 powi 52 * 2 powi (e - 52)"
    by (rule power_int_add) simp
  then have "(2::real) powi e = 2 powi 52 * 2 powi (e - 52)" using eq by simp
  then show ?thesis by simp
qed

lemma powi_53: "(2::real) powi (e + 1) = 2 ^ 53 * 2 powi (e - 52)"
proof -
  have eq: "53 + (e - 52) = e + 1" by simp
  have "(2::real) powi (53 + (e - 52)) = 2 powi 53 * 2 powi (e - 52)"
    by (rule power_int_add) simp
  then have "(2::real) powi (e + 1) = 2 powi 53 * 2 powi (e - 52)" by (simp only: eq)
  then show ?thesis by simp
qed

lemma rval_le_binade:
  assumes "0 \<le> x" and "x < 2 powi (bexp x + 1)"
  shows "rval x \<le> 2 powi (bexp x + 1)"
proof -
  let ?q = "(2::real) powi (bexp x - 52)"
  have "x / ?q \<le> 2 ^ 53"
    using assms(2) by (simp add: powi_53 [of "bexp x"] pos_divide_le_eq)
  then have "x / ?q \<le> of_int (2 ^ 53)" by simp
  then have "round_even (x / ?q) \<le> 2 ^ 53" by (rule round_even_le)
  then have "(of_int (round_even (x / ?q)) :: real) \<le> of_int (2 ^ 53)" by (simp only: of_int_le_iff)
  then have "of_int (round_even (x / ?q)) * ?q \<le> 2 ^ 53 * ?q"
    by (intro mult_right_mono) simp_all
  then show ?thesis by (simp add: rval_def Let_def powi_53 [of "bexp x"])
qed

lemma rval_ge_binade:
  assumes "2 powi (bexp x) \<le> x"
  shows "2 powi (bexp x) \<le> rval x"
proof -
  let ?q = "(2::real) powi (bexp x - 52)"
  have "2 ^ 52 \<le> x / ?q"
    using assms by (simp add: powi_52 [of "bexp x"] pos_le_divide_eq)
  then have "of_int (2 ^ 52) \<le> x / ?q" by simp
  then have "2 ^ 52 \<le> round_even (x / ?q)" by (rule round_even_ge)
  then have "(of_int (2 ^ 52) :: real) \<le> of_int (round_even (x / ?q))" by (simp only: of_int_le_iff)
  then have "2 ^ 52 * ?q \<le> of_int (round_even (x / ?q)) * ?q"
    by (intro mult_right_mono) simp_all
  then show ?thesis by (simp add: rval_def Let_def powi_52 [of "bexp x"])
qed

lemma rval_mono_nonneg:
  assumes "0 \<le> x" and "x \<le> y"
  shows "rval x \<le> rval y"
proof -
  have ay: "\<bar>x\<bar> \<le> \<bar>y\<bar>" using assms by simp
  then have le: "bexp x \<le> bexp y" by (rule bexp_mono)
  show ?thesis
  proof (cases "bexp x = bexp y")
    case True
    let ?q = "(2::real) powi (bexp y - 52)"
    have "x / ?q \<le> y / ?q" using assms(2) by (simp add: divide_right_mono)
    then have "round_even (x / ?q) \<le> round_even (y / ?q)" by (rule round_even_mono)
    then have "(of_int (round_even (x / ?q)) :: real) \<le> of_int (round_even (y / ?q))"
      by (simp only: of_int_le_iff)
    then have "of_int (round_even (x / ?q)) * ?q \<le> of_int (round_even (y / ?q)) * ?q"
      by (intro mult_right_mono) simp_all
    with True show ?thesis by (simp add: rval_def Let_def)
  next
    case False
    with le have lt: "bexp x < bexp y" by simp
    with bexp_range(1) [of x] have "bexp y \<noteq> - 1022" by simp
    then have "2 powi (bexp y) \<le> \<bar>y\<bar>" by (intro bexp_lower) simp
    with assms have "2 powi (bexp y) \<le> y" by simp
    then have ylo: "2 powi (bexp y) \<le> rval y" by (rule rval_ge_binade)
    from lt bexp_range(2) [of y] have "bexp x \<noteq> 1023" by simp
    with bexp_upper [of x] assms(1) have xup: "x < 2 powi (bexp x + 1)" by simp
    with assms(1) have "rval x \<le> 2 powi (bexp x + 1)" by (rule rval_le_binade)
    also have "(2::real) powi (bexp x + 1) \<le> 2 powi (bexp y)"
      using lt by (intro power_int_increasing) simp_all
    finally show ?thesis using ylo by simp
  qed
qed

lemma rval_mono:
  assumes "x \<le> y"
  shows "rval x \<le> rval y"
proof (cases "0 \<le> x")
  case True
  then show ?thesis using assms by (rule rval_mono_nonneg)
next
  case xneg: False
  show ?thesis
  proof (cases "0 \<le> y")
    case True
    from xneg have "0 \<le> rval (- x)" by (intro rval_nonneg) simp
    then have "rval x \<le> 0" by (simp add: rval_minus)
    also have "0 \<le> rval y" using True by (rule rval_nonneg)
    finally show ?thesis .
  next
    case False
    then have "0 \<le> - y" and "- y \<le> - x" using assms by simp_all
    then have "rval (- y) \<le> rval (- x)" by (rule rval_mono_nonneg)
    then show ?thesis by (simp add: rval_minus)
  qed
qed

lemma rval_pow2:
  assumes "- 1022 \<le> e" and "e \<le> 1023"
  shows "rval (2 powi e) = 2 powi e"
proof -
  have b: "bexp (2 powi e) = e"
  proof (rule bexp_eqI [OF assms])
    show "2 powi e \<le> \<bar>(2::real) powi e\<bar>" by simp
    show "\<bar>(2::real) powi e\<bar> < 2 powi (e + 1)"
      by (simp add: power_int_strict_increasing)
  qed
  have "(2::real) powi e / 2 powi (e - 52) = of_int (2 ^ 52)"
    by (simp add: powi_52 [of e])
  then have re: "round_even ((2::real) powi e / 2 powi (e - 52)) = 2 ^ 52"
    by (simp only: round_even_of_int)
  have "rval (2 powi e)
          = of_int (round_even (2 powi e / 2 powi (bexp (2 powi e) - 52)))
              * 2 powi (bexp (2 powi e) - 52)"
    by (simp only: rval_def Let_def)
  also have "\<dots> = of_int (2 ^ 52) * 2 powi (e - 52)"
    by (simp only: b re)
  also have "\<dots> = 2 powi e"
    using powi_52 [of e] by simp
  finally show ?thesis .
qed

lemma rval_same_binade:
  assumes "bexp (of_int n * 2 powi (e - 52)) = e"
  shows "rval (of_int n * 2 powi (e - 52)) = of_int n * 2 powi (e - 52)"
  by (simp add: rval_def Let_def assms)

lemma rval_idem_nonneg:
  assumes "0 \<le> x" and "rval x < 2 ^ 1024"
  shows "rval (rval x) = rval x"
proof -
  let ?e = "bexp x"
  let ?q = "(2::real) powi (?e - 52)"
  let ?n = "round_even (x / ?q)"
  have r: "rval x = of_int ?n * ?q" by (simp add: rval_def Let_def)
  have n0: "0 \<le> ?n" using assms(1) by (intro round_even_nonneg) simp
  have nle: "?n \<le> 2 ^ 53"
  proof (cases "?e = 1023")
    case True
    have "(2::real) ^ 1024 = 2 ^ 53 * 2 powi (1023 - 52)" by simp
    with assms(2) r True have "of_int ?n * ?q < 2 ^ 53 * ?q" by simp
    then have "(of_int ?n :: real) < 2 ^ 53" by simp
    then have "(of_int ?n :: real) < of_int (2 ^ 53)" by simp
    then have "?n < 2 ^ 53" by (simp only: of_int_less_iff)
    then show ?thesis by simp
  next
    case False
    with bexp_upper [of x] assms(1) have "x < 2 powi (?e + 1)" by simp
    with assms(1) have "rval x \<le> 2 powi (?e + 1)" by (rule rval_le_binade)
    with r have "of_int ?n * ?q \<le> 2 ^ 53 * ?q" by (simp add: powi_53 [of ?e])
    then have "(of_int ?n :: real) \<le> 2 ^ 53" by simp
    then have "(of_int ?n :: real) \<le> of_int (2 ^ 53)" by simp
    then show ?thesis by (simp only: of_int_le_iff)
  qed
  show ?thesis
  proof (cases "?n = 2 ^ 53")
    case True
    then have rv: "rval x = 2 powi (?e + 1)" using r by (simp add: powi_53 [of ?e])
    have "?e \<noteq> 1023"
    proof
      assume "?e = 1023"
      with rv have "rval x = 2 powi 1024" by simp
      with assms(2) show False by simp
    qed
    with bexp_range [of x] have "- 1022 \<le> ?e + 1" "?e + 1 \<le> 1023" by simp_all
    then have "rval (2 powi (?e + 1)) = 2 powi (?e + 1)" by (rule rval_pow2)
    with rv show ?thesis by simp
  next
    case False
    with nle have nlt: "?n < 2 ^ 53" by simp
    then have "(of_int ?n :: real) < of_int (2 ^ 53)" by (simp only: of_int_less_iff)
    then have "(of_int ?n :: real) < 2 ^ 53" by simp
    then have "of_int ?n * ?q < 2 ^ 53 * ?q" by simp
    then have up: "rval x < 2 powi (?e + 1)" using r by (simp add: powi_53 [of ?e])
    have r0: "0 \<le> rval x" using assms(1) by (rule rval_nonneg)
    show ?thesis
    proof (cases "2 powi ?e \<le> x")
      case True
      then have "2 powi ?e \<le> rval x" by (rule rval_ge_binade)
      with r0 up bexp_range [of x] have "bexp (rval x) = ?e"
        by (intro bexp_eqI) simp_all
      then have "bexp (of_int ?n * ?q) = ?e" using r by simp
      then have "rval (of_int ?n * ?q) = of_int ?n * ?q" by (rule rval_same_binade)
      with r show ?thesis by simp
    next
      case False
      have e: "?e = - 1022"
      proof (rule ccontr)
        assume "?e \<noteq> - 1022"
        then have "2 powi ?e \<le> \<bar>x\<bar>" by (intro bexp_lower) (rule disjI2)
        with assms(1) False show False by simp
      qed
      have "x / ?q \<le> 2 ^ 52"
        using False by (simp add: powi_52 [of ?e] pos_divide_le_eq)
      then have "x / ?q \<le> of_int (2 ^ 52)" by simp
      then have n52: "?n \<le> 2 ^ 52" by (rule round_even_le)
      show ?thesis
      proof (cases "?n = 2 ^ 52")
        case True
        then have "rval x = 2 powi ?e" using r by (simp add: powi_52 [of ?e])
        moreover have "rval (2 powi ?e) = 2 powi ?e"
          using bexp_range [of x] by (intro rval_pow2)
        ultimately show ?thesis by simp
      next
        case False
        with n52 have "?n < 2 ^ 52" by simp
        then have "(of_int ?n :: real) < of_int (2 ^ 52)" by (simp only: of_int_less_iff)
        then have "(of_int ?n :: real) < 2 ^ 52" by simp
        then have "of_int ?n * ?q < 2 ^ 52 * ?q" by simp
        then have "rval x < 2 powi ?e" using r by (simp add: powi_52 [of ?e])
        with e r0 have "\<bar>rval x\<bar> < 2 powi (- 1022)" by simp
        then have "bexp (rval x) = - 1022" by (rule bexp_subnormal)
        with e have "bexp (of_int ?n * ?q) = ?e" using r by simp
        then have "rval (of_int ?n * ?q) = of_int ?n * ?q" by (rule rval_same_binade)
        with r show ?thesis by simp
      qed
    qed
  qed
qed

lemma rval_idem:
  assumes "\<bar>rval x\<bar> < 2 ^ 1024"
  shows "rval (rval x) = rval x"
proof (cases "0 \<le> x")
  case True
  moreover from assms have "rval x < 2 ^ 1024" by simp
  ultimately show ?thesis by (rule rval_idem_nonneg)
next
  case False
  then have "0 \<le> - x" by simp
  moreover from assms have "rval (- x) < 2 ^ 1024" by (simp add: rval_minus)
  ultimately have "rval (rval (- x)) = rval (- x)" by (rule rval_idem_nonneg)
  then show ?thesis by (simp add: rval_minus)
qed

subsection \<open>The comparisons and the rounded value as a float\<close>

lemma fle_refl: "a \<noteq> NaN \<Longrightarrow> fle a a"
  by (cases a) simp_all

lemma fle_trans: "fle a b \<Longrightarrow> fle b c \<Longrightarrow> fle a c"
  by (cases a; cases b; cases c) simp_all

lemma not_flt_fle: "a \<noteq> NaN \<Longrightarrow> b \<noteq> NaN \<Longrightarrow> \<not> flt b a \<Longrightarrow> fle a b"
  by (cases a; cases b) simp_all

lemma flt_fle: "flt a b \<Longrightarrow> fle a b"
  by (cases a; cases b) simp_all

lemma fle_not_flt: "fle a b \<Longrightarrow> \<not> flt b a"
  by (cases a; cases b) simp_all

lemma round64_not_NaN: "round64 x \<noteq> NaN"
  by (simp add: round64_def Let_def)

lemma round64_Fin: "round64 x = Fin r \<Longrightarrow> r = rval x \<and> \<bar>rval x\<bar> < 2 ^ 1024"
  by (auto simp: round64_def Let_def split: if_splits)

lemma round64_finite: "\<bar>rval x\<bar> < 2 ^ 1024 \<Longrightarrow> round64 x = Fin (rval x)"
  by (auto simp: round64_def Let_def)

lemma round64_mono:
  assumes "x \<le> y"
  shows "fle (round64 x) (round64 y)"
proof -
  have "rval x \<le> rval y" using assms by (rule rval_mono)
  then show ?thesis by (auto simp: round64_def Let_def)
qed

lemma round64_0: "round64 0 = Fin 0"
  by (simp add: round64_def Let_def)

lemma is_double_0: "is_double 0"
  by (simp add: is_double_def round64_0)

lemma is_double_round64:
  assumes "round64 x = Fin r"
  shows "is_double r"
proof -
  from assms have r: "r = rval x" and b: "\<bar>rval x\<bar> < 2 ^ 1024"
    using round64_Fin by blast+
  from b have "rval (rval x) = rval x" by (rule rval_idem)
  with b have "round64 (rval x) = Fin (rval x)"
    by (simp add: round64_finite)
  with r show ?thesis by (simp add: is_double_def)
qed

lemma is_double_rval: "is_double x \<Longrightarrow> rval x = x"
  using round64_Fin [of x x] by (simp add: is_double_def)

lemma round64_le_double:
  assumes "x \<le> m" and "is_double m"
  shows "fle (round64 x) (Fin m)"
  using round64_mono [OF assms(1)] assms(2) by (simp add: is_double_def)

lemma rval_small:
  assumes "\<bar>x\<bar> \<le> 2 ^ 1023"
  shows "\<bar>rval x\<bar> \<le> 2 ^ 1023"
proof -
  have p: "rval (2 powi 1023) = 2 powi 1023" by (rule rval_pow2) simp_all
  have p': "rval (2 ^ 1023) = 2 ^ 1023" using p by simp
  from assms have "x \<le> 2 ^ 1023" and "- (2 ^ 1023) \<le> x" by simp_all
  then have "rval x \<le> rval (2 ^ 1023)" and "rval (- (2 ^ 1023)) \<le> rval x"
    by (simp_all only: rval_mono)
  then show ?thesis using p' by (simp add: rval_minus)
qed

lemma round64_small:
  assumes "\<bar>x\<bar> \<le> 2 ^ 1023"
  shows "round64 x = Fin (rval x)"
proof -
  have "\<bar>rval x\<bar> \<le> 2 ^ 1023" using assms by (rule rval_small)
  moreover have "(2::real) ^ 1023 < 2 ^ 1024" by simp
  ultimately have "\<bar>rval x\<bar> < 2 ^ 1024" by linarith
  then show ?thesis by (rule round64_finite)
qed



subsection \<open>Overflow\<close>

lemma rval_not_top:
  assumes "0 \<le> x" and "bexp x \<noteq> 1023"
  shows "rval x \<le> 2 ^ 1023"
proof -
  from assms bexp_upper [of x] have "x < 2 powi (bexp x + 1)" by simp
  with assms(1) have "rval x \<le> 2 powi (bexp x + 1)" by (rule rval_le_binade)
  also have "(2::real) powi (bexp x + 1) \<le> 2 powi 1023"
    using assms(2) bexp_range(2) [of x] by (intro power_int_increasing) simp_all
  finally show ?thesis by simp
qed

lemma rval_below_overflow_nonneg:
  assumes "0 \<le> x" and "x < 2 ^ 1024 - 2 ^ 970"
  shows "rval x \<le> 2 ^ 1024 - 2 ^ 971"
proof (cases "bexp x = 1023")
  case False
  with assms(1) have "rval x \<le> 2 ^ 1023" by (rule rval_not_top)
  moreover have "(2::real) ^ 1023 \<le> 2 ^ 1024 - 2 ^ 971" by simp
  ultimately show ?thesis by linarith
next
  case True
  let ?q = "(2::real) powi 971"
  have q: "?q = 2 ^ 971" by simp
  have "x / ?q < (2 ^ 1024 - 2 ^ 970) / ?q"
    using assms(2) by (intro divide_strict_right_mono) simp_all
  also have "((2::real) ^ 1024 - 2 ^ 970) / ?q = of_int (2 ^ 53) - 1 / 2"
    by simp
  finally have "round_even (x / ?q) \<le> 2 ^ 53 - 1" by (rule round_even_lt_half)
  then have "(of_int (round_even (x / ?q)) :: real) \<le> of_int (2 ^ 53 - 1)"
    by (simp only: of_int_le_iff)
  then have "of_int (round_even (x / ?q)) * ?q \<le> of_int (2 ^ 53 - 1) * ?q"
    by (intro mult_right_mono) simp_all
  moreover have "rval x = of_int (round_even (x / ?q)) * ?q"
    using rval_unfold [of x] True by simp
  moreover have "of_int (2 ^ 53 - 1) * ?q = (2::real) ^ 1024 - 2 ^ 971" by simp
  ultimately show ?thesis by simp
qed

lemma round64_below_overflow:
  assumes "\<bar>x\<bar> < 2 ^ 1024 - 2 ^ 970"
  shows "round64 x = Fin (rval x)"
proof -
  have lt: "(2::real) ^ 1024 - 2 ^ 971 < 2 ^ 1024" by simp
  have "\<bar>rval x\<bar> \<le> 2 ^ 1024 - 2 ^ 971"
  proof (cases "0 \<le> x")
    case True
    with assms have "rval x \<le> 2 ^ 1024 - 2 ^ 971"
      by (intro rval_below_overflow_nonneg) simp_all
    moreover have "0 \<le> rval x" using True by (rule rval_nonneg)
    ultimately show ?thesis by simp
  next
    case False
    with assms have "rval (- x) \<le> 2 ^ 1024 - 2 ^ 971"
      by (intro rval_below_overflow_nonneg) simp_all
    moreover have "0 \<le> rval (- x)" using False by (intro rval_nonneg) simp
    ultimately show ?thesis by (simp add: rval_minus)
  qed
  with lt have "\<bar>rval x\<bar> < 2 ^ 1024" by linarith
  then show ?thesis by (rule round64_finite)
qed

lemma is_double_bound:
  assumes "is_double c"
  shows "\<bar>c\<bar> \<le> 2 ^ 1024 - 2 ^ 971"
proof -
  have rc: "rval c = c" using assms by (rule is_double_rval)
  have lt: "\<bar>c\<bar> < 2 ^ 1024"
    using round64_Fin [of c c] assms rc by (simp add: is_double_def)
  have nonneg: "\<And>d. 0 \<le> d \<Longrightarrow> rval d = d \<Longrightarrow> d < 2 ^ 1024 \<Longrightarrow> d \<le> 2 ^ 1024 - 2 ^ 971"
  proof -
    fix d :: real
    assume d0: "0 \<le> d" and rd: "rval d = d" and dl: "d < 2 ^ 1024"
    show "d \<le> 2 ^ 1024 - 2 ^ 971"
    proof (cases "bexp d = 1023")
      case False
      with d0 have "rval d \<le> 2 ^ 1023" by (rule rval_not_top)
      moreover have "(2::real) ^ 1023 \<le> 2 ^ 1024 - 2 ^ 971" by simp
      ultimately show ?thesis using rd by linarith
    next
      case True
      let ?q = "(2::real) powi 971"
      let ?n = "round_even (d / ?q)"
      have u: "d = of_int ?n * ?q" using rval_unfold [of d] True rd by simp
      have "of_int ?n * ?q < 2 ^ 53 * ?q" using dl u by simp
      then have "(of_int ?n :: real) < of_int (2 ^ 53)" by simp
      then have "?n < 2 ^ 53" by (simp only: of_int_less_iff)
      then have "?n \<le> 2 ^ 53 - 1" by simp
      then have "(of_int ?n :: real) \<le> of_int (2 ^ 53 - 1)" by (simp only: of_int_le_iff)
      then have "of_int ?n * ?q \<le> of_int (2 ^ 53 - 1) * ?q"
        by (intro mult_right_mono) simp_all
      moreover have "of_int (2 ^ 53 - 1) * ?q = (2::real) ^ 1024 - 2 ^ 971" by simp
      ultimately show ?thesis using u by simp
    qed
  qed
  show ?thesis
  proof (cases "0 \<le> c")
    case True
    with nonneg [of c] rc lt show ?thesis by simp
  next
    case False
    with nonneg [of "- c"] rc lt show ?thesis by (simp add: rval_minus)
  qed
qed

lemma one_minus_finite:
  assumes "is_double c"
  shows "round64 (1 - c) = Fin (rval (1 - c))"
proof -
  have "\<bar>c\<bar> \<le> 2 ^ 1024 - 2 ^ 971" using assms by (rule is_double_bound)
  then have "\<bar>1 - c\<bar> \<le> 1 + (2 ^ 1024 - 2 ^ 971)" by linarith
  moreover have "1 + ((2::real) ^ 1024 - 2 ^ 971) < 2 ^ 1024 - 2 ^ 970" by simp
  ultimately have "\<bar>1 - c\<bar> < 2 ^ 1024 - 2 ^ 970" by linarith
  then show ?thesis by (rule round64_below_overflow)
qed

lemma round64_overflow:
  assumes "2 ^ 1024 \<le> x"
  shows "round64 x = PInf"
proof -
  have b: "bexp (2 ^ 1024) = 1023" by (rule bexp_top) simp
  have "(2::real) ^ 1024 / 2 powi (1023 - 52) = of_int (2 ^ 53)" by simp
  then have "round_even ((2::real) ^ 1024 / 2 powi (1023 - 52)) = 2 ^ 53"
    by (simp only: round_even_of_int)
  then have "rval (2 ^ 1024) = of_int (2 ^ 53) * 2 powi (1023 - 52)"
    by (simp only: rval_unfold b)
  then have "rval (2 ^ 1024) = 2 ^ 1024" by simp
  moreover have "rval (2 ^ 1024) \<le> rval x" using assms by (rule rval_mono)
  ultimately have "2 ^ 1024 \<le> rval x" by simp
  then show ?thesis by (simp add: round64_def Let_def)
qed

lemma range_finite:
  assumes "\<bar>m\<bar> \<le> 2 ^ 1022" and "\<bar>M\<bar> \<le> 2 ^ 1022"
  shows "fsub (Fin M) (Fin m) = Fin (rval (M - m))"
proof -
  have "(2::real) ^ 1023 = 2 ^ 1022 + 2 ^ 1022" by simp
  with assms have "\<bar>M - m\<bar> \<le> 2 ^ 1023" by linarith
  then show ?thesis by (simp add: round64_small)
qed

subsection \<open>Rounding at given numbers\<close>

lemma round64_eval:
  assumes "- 1022 \<le> e" and "e \<le> 1023"
    and "2 powi e \<le> \<bar>x\<bar>" and "\<bar>x\<bar> < 2 powi (e + 1)"
    and "round_even (x / 2 powi (e - 52)) = n"
    and "of_int n * 2 powi (e - 52) = r"
    and "\<bar>r\<bar> < 2 ^ 1024"
  shows "round64 x = Fin r"
proof -
  have "bexp x = e" using assms(1-4) by (rule bexp_eqI)
  then have "rval x = r" using assms(5,6) by (simp only: rval_unfold)
  with assms(7) show ?thesis using round64_finite [of x] by simp
qed

lemma round64_1: "round64 1 = Fin 1"
proof -
  have "rval (2 powi 0) = 2 powi 0" by (rule rval_pow2) simp_all
  then have "rval 1 = 1" by simp
  then show ?thesis using round64_finite [of 1] by simp
qed

lemma round64_2: "round64 2 = Fin 2"
proof -
  have "rval (2 powi 1) = 2 powi 1" by (rule rval_pow2) simp_all
  then have "rval 2 = 2" by simp
  then show ?thesis using round64_finite [of 2] by simp
qed

lemma round64_3: "round64 3 = Fin 3"
  by (rule round64_eval [where e = 1 and n = "3 * 2 ^ 51"]) (simp_all add: round_even_def)

lemma round64_half: "round64 (1 / 2) = Fin (1 / 2)"
  by (rule round64_eval [where e = "- 1" and n = "2 ^ 52"]) (simp_all add: round_even_def)

lemma round64_quarter: "round64 (1 / 4) = Fin (1 / 4)"
  by (rule round64_eval [where e = "- 2" and n = "2 ^ 52"]) (simp_all add: round_even_def)


subsection \<open>Subtraction from a double and multiplication by one\<close>


lemma threshold_le_max:
  assumes "is_double M" and "fle (Fin 0) p"
  shows "fle (fsub (Fin M) p) (Fin M)"
proof (cases p)
  case (Fin a)
  with assms(2) have "M - a \<le> M" by simp
  then show ?thesis using Fin assms(1) by (simp add: round64_le_double)
next
  case PInf then show ?thesis by simp
next
  case NInf with assms(2) show ?thesis by simp
next
  case NaN with assms(2) show ?thesis by simp
qed


lemma fmul_one: "fmul (round64 x) (Fin 1) = round64 x"
proof (cases "round64 x")
  case (Fin r)
  then have "is_double r" by (rule is_double_round64)
  with Fin show ?thesis by (simp add: is_double_def)
next
  case PInf then show ?thesis by simp
next
  case NInf then show ?thesis by simp
next
  case NaN then show ?thesis by (simp add: round64_not_NaN)
qed

section \<open>Properties of the decimation script on Python floats\<close>

subsection \<open>The bounds and the loop\<close>

lemma foldl_min64:
  assumes "a \<noteq> NaN" and "\<forall>y\<in>set as. y \<noteq> NaN"
  shows "foldl (\<lambda>m item. if flt item m then item else m) a as \<in> set (a # as) \<and>
         (\<forall>y\<in>set (a # as). fle (foldl (\<lambda>m item. if flt item m then item else m) a as) y)"
  using assms
proof (induction as arbitrary: a rule: rev_induct)
  case Nil
  then show ?case by (simp add: fle_refl)
next
  case (snoc b bs)
  let ?r = "foldl (\<lambda>m item. if flt item m then item else m) a bs"
  from snoc.prems have bn: "b \<noteq> NaN" and rest: "\<forall>y\<in>set bs. y \<noteq> NaN" by simp_all
  from snoc.IH [OF snoc.prems(1) rest]
  have mem: "?r \<in> set (a # bs)" and low: "\<forall>y\<in>set (a # bs). fle ?r y" by blast+
  from mem snoc.prems(1) rest have rn: "?r \<noteq> NaN" by auto
  show ?case
  proof (cases "flt b ?r")
    case True
    then have br: "fle b ?r" by (rule flt_fle)
    have "\<forall>y\<in>set (a # bs). fle b y" using low br fle_trans by blast
    with True bn show ?thesis by (simp add: fle_refl)
  next
    case False
    with rn bn have "fle ?r b" by (intro not_flt_fle)
    with False mem low show ?thesis by auto
  qed
qed

lemma foldl_max64:
  assumes "a \<noteq> NaN" and "\<forall>y\<in>set as. y \<noteq> NaN"
  shows "foldl (\<lambda>m item. if fgt item m then item else m) a as \<in> set (a # as) \<and>
         (\<forall>y\<in>set (a # as). fle y (foldl (\<lambda>m item. if fgt item m then item else m) a as))"
  using assms
proof (induction as arbitrary: a rule: rev_induct)
  case Nil
  then show ?case by (simp add: fle_refl)
next
  case (snoc b bs)
  let ?r = "foldl (\<lambda>m item. if fgt item m then item else m) a bs"
  from snoc.prems have bn: "b \<noteq> NaN" and rest: "\<forall>y\<in>set bs. y \<noteq> NaN" by simp_all
  from snoc.IH [OF snoc.prems(1) rest]
  have mem: "?r \<in> set (a # bs)" and up: "\<forall>y\<in>set (a # bs). fle y ?r" by blast+
  from mem snoc.prems(1) rest have rn: "?r \<noteq> NaN" by auto
  show ?case
  proof (cases "fgt b ?r")
    case True
    then have br: "fle ?r b" unfolding fgt_def by (rule flt_fle)
    have "\<forall>y\<in>set (a # bs). fle y b" using up br fle_trans by blast
    with True bn show ?thesis by (simp add: fle_refl)
  next
    case False
    with rn bn have "fle b ?r" unfolding fgt_def by (intro not_flt_fle)
    with False mem up show ?thesis by auto
  qed
qed

lemma py_min64_least:
  assumes "ys \<noteq> []" and "\<forall>y\<in>set ys. y \<noteq> NaN"
  shows "\<exists>m. py_min64 ys = Inr m \<and> m \<in> set ys \<and> (\<forall>y\<in>set ys. fle m y)"
proof (cases ys)
  case Nil
  with assms(1) show ?thesis by simp
next
  case (Cons a as)
  with assms(2) have "a \<noteq> NaN" and "\<forall>y\<in>set as. y \<noteq> NaN" by simp_all
  from foldl_min64 [OF this] Cons show ?thesis by simp
qed

lemma py_max64_greatest:
  assumes "ys \<noteq> []" and "\<forall>y\<in>set ys. y \<noteq> NaN"
  shows "\<exists>m. py_max64 ys = Inr m \<and> m \<in> set ys \<and> (\<forall>y\<in>set ys. fle y m)"
proof (cases ys)
  case Nil
  with assms(1) show ?thesis by simp
next
  case (Cons a as)
  with assms(2) have "a \<noteq> NaN" and "\<forall>y\<in>set as. y \<noteq> NaN" by simp_all
  from foldl_max64 [OF this] Cons show ?thesis by simp
qed

lemma classify64_filter:
  "classify64 thr vs face_verts body_verts =
     (face_verts @ map index64 (filter (\<lambda>v. fge (co_y64 v) thr) vs),
      body_verts @ map index64 (filter (\<lambda>v. \<not> fge (co_y64 v) thr) vs))"
  by (induction vs arbitrary: face_verts body_verts) simp_all

lemma finite_bounds64:
  assumes "verts \<noteq> []" and "\<forall>v\<in>set verts. \<exists>y. co_y64 v = Fin y \<and> P y"
  shows "\<exists>m M. py_min64 (map co_y64 verts) = Inr (Fin m) \<and>
               py_max64 (map co_y64 verts) = Inr (Fin M) \<and> P m \<and> P M \<and> m \<le> M \<and>
               (\<forall>v\<in>set verts. fle (Fin m) (co_y64 v) \<and> fle (co_y64 v) (Fin M)) \<and>
               (\<exists>u\<in>set verts. co_y64 u = Fin M)"
proof -
  have ne: "map co_y64 verts \<noteq> []" using assms(1) by simp
  have nn: "\<forall>y\<in>set (map co_y64 verts). y \<noteq> NaN" using assms(2) by auto
  obtain mn where mn: "py_min64 (map co_y64 verts) = Inr mn" "mn \<in> set (map co_y64 verts)"
      "\<forall>y\<in>set (map co_y64 verts). fle mn y"
    using py_min64_least [OF ne nn] by blast
  obtain mx where mx: "py_max64 (map co_y64 verts) = Inr mx" "mx \<in> set (map co_y64 verts)"
      "\<forall>y\<in>set (map co_y64 verts). fle y mx"
    using py_max64_greatest [OF ne nn] by blast
  from mn(2) obtain a where a: "a \<in> set verts" "mn = co_y64 a" by auto
  from mx(2) obtain u where u: "u \<in> set verts" "mx = co_y64 u" by auto
  from assms(2) a obtain m where m: "mn = Fin m" "P m" by auto
  from assms(2) u obtain M where M: "mx = Fin M" "P M" by auto
  from mn(3) mx(2) have "fle mn mx" by blast
  with m(1) M(1) have le: "m \<le> M" by simp
  have b: "\<forall>v\<in>set verts. fle (Fin m) (co_y64 v) \<and> fle (co_y64 v) (Fin M)"
    using mn(3) mx(3) m(1) M(1) by simp
  from u M(1) have "\<exists>u\<in>set verts. co_y64 u = Fin M" by auto
  with mn(1) mx(1) m M le b show ?thesis by blast
qed

subsection \<open>The threshold formula and the classification rule\<close>

text \<open>
  The four roundings of the example below: the cutoff is the double nearest to 0.3 and
  the coordinates are \<open>-4\<close>, \<open>2.75\<close> and \<open>18.5\<close>.
\<close>

lemma ev1: "round64 (12610078956637389 / 18014398509481984) = Fin (3152519739159347 / 4503599627370496)"
  by (rule round64_eval [where e = "- 1" and n = 6305039478318694])
     (simp_all add: round_even_def)

lemma ev2: "round64 (45 / 2) = Fin (45 / 2)"
  by (rule round64_eval [where e = 4 and n = 6333186975989760])
     (simp_all add: round_even_def)

lemma ev3: "round64 (141863388262170615 / 9007199254740992) = Fin (8866461766385663 / 562949953421312)"
  by (rule round64_eval [where e = 3 and n = 8866461766385663])
     (simp_all add: round_even_def)

lemma ev4: "round64 (1548112371908609 / 562949953421312) = Fin (1548112371908609 / 562949953421312)"
  by (rule round64_eval [where e = 1 and n = 6192449487634436])
     (simp_all add: round_even_def)

text \<open>
  Claim C2. For a non-empty mesh and every cutoff, also an infinite one or a nan, the
  threshold the script computes is \<open>max_y - (max_y - min_y) * (1 - face_cutoff)\<close> in
  Python's float arithmetic, where \<open>min_y\<close> and \<open>max_y\<close> are what \<open>min\<close> and \<open>max\<close>
  return, and \<open>face_verts\<close> holds, in mesh order, the indices of exactly the vertices
  whose coordinate is \<open>>=\<close> the threshold, \<open>body_verts\<close> those of all the others. When
  no coordinate is a nan, \<open>min_y\<close> and \<open>max_y\<close> are the least and the greatest \<open>y\<close>
  coordinate of the vertices.
\<close>

theorem threshold_and_classification64:
  assumes "verts \<noteq> []"
  shows "\<exists>min_y max_y thr.
           py_min64 (map co_y64 verts) = Inr min_y \<and>
           py_max64 (map co_y64 verts) = Inr max_y \<and>
           thr = fsub max_y (fmul (fsub max_y min_y) (fsub (Fin 1) face_cutoff)) \<and>
           face_threshold64 verts face_cutoff = Inr thr \<and>
           regions64 verts face_cutoff =
             Inr (map index64 (filter (\<lambda>v. fge (co_y64 v) thr) verts),
                  map index64 (filter (\<lambda>v. \<not> fge (co_y64 v) thr) verts)) \<and>
           ((\<forall>v\<in>set verts. co_y64 v \<noteq> NaN) \<longrightarrow>
              min_y \<in> co_y64 ` set verts \<and> max_y \<in> co_y64 ` set verts \<and>
              (\<forall>v\<in>set verts. fle min_y (co_y64 v) \<and> fle (co_y64 v) max_y))"
proof -
  obtain a as where c: "map co_y64 verts = a # as"
    using assms by (cases "map co_y64 verts") simp_all
  obtain mn where mn: "py_min64 (map co_y64 verts) = Inr mn" by (simp add: c)
  obtain mx where mx: "py_max64 (map co_y64 verts) = Inr mx" by (simp add: c)
  let ?thr = "fsub mx (fmul (fsub mx mn) (fsub (Fin 1) face_cutoff))"
  have t: "face_threshold64 verts face_cutoff = Inr ?thr"
    using mn mx by (simp add: face_threshold64_def y_threshold64_def)
  have r: "regions64 verts face_cutoff =
             Inr (map index64 (filter (\<lambda>v. fge (co_y64 v) ?thr) verts),
                  map index64 (filter (\<lambda>v. \<not> fge (co_y64 v) ?thr) verts))"
    using t by (simp add: regions64_def classify64_filter)
  have b: "(\<forall>v\<in>set verts. co_y64 v \<noteq> NaN) \<longrightarrow>
              mn \<in> co_y64 ` set verts \<and> mx \<in> co_y64 ` set verts \<and>
              (\<forall>v\<in>set verts. fle mn (co_y64 v) \<and> fle (co_y64 v) mx)"
  proof
    assume "\<forall>v\<in>set verts. co_y64 v \<noteq> NaN"
    then have nn: "\<forall>y\<in>set (map co_y64 verts). y \<noteq> NaN" by simp
    have ne: "map co_y64 verts \<noteq> []" using assms by simp
    from py_min64_least [OF ne nn] mn
    have 1: "mn \<in> set (map co_y64 verts)" "\<forall>y\<in>set (map co_y64 verts). fle mn y" by auto
    from py_max64_greatest [OF ne nn] mx
    have 2: "mx \<in> set (map co_y64 verts)" "\<forall>y\<in>set (map co_y64 verts). fle y mx" by auto
    from 1 2 show "mn \<in> co_y64 ` set verts \<and> mx \<in> co_y64 ` set verts \<and>
              (\<forall>v\<in>set verts. fle mn (co_y64 v) \<and> fle (co_y64 v) mx)"
      by simp
  qed
  from mn mx t r b show ?thesis by blast
qed

theorem threshold_and_classification64_witness:
  "[\<lparr>index64 = 0, co_y64 = Fin (- 4)\<rparr>, \<lparr>index64 = 1, co_y64 = Fin (11 / 4)\<rparr>,
    \<lparr>index64 = 2, co_y64 = Fin (37 / 2)\<rparr>] \<noteq> [] \<and>
   face_threshold64
     [\<lparr>index64 = 0, co_y64 = Fin (- 4)\<rparr>, \<lparr>index64 = 1, co_y64 = Fin (11 / 4)\<rparr>,
      \<lparr>index64 = 2, co_y64 = Fin (37 / 2)\<rparr>]
     (Fin (5404319552844595 / 18014398509481984))
     = Inr (Fin (1548112371908609 / 562949953421312)) \<and>
   regions64
     [\<lparr>index64 = 0, co_y64 = Fin (- 4)\<rparr>, \<lparr>index64 = 1, co_y64 = Fin (11 / 4)\<rparr>,
      \<lparr>index64 = 2, co_y64 = Fin (37 / 2)\<rparr>]
     (Fin (5404319552844595 / 18014398509481984))
     = Inr ([2], [0, 1])"
proof -
  let ?vs = "[\<lparr>index64 = 0, co_y64 = Fin (- 4)\<rparr>, \<lparr>index64 = 1, co_y64 = Fin (11 / 4)\<rparr>,
              \<lparr>index64 = 2, co_y64 = Fin (37 / 2)\<rparr>]"
  let ?c = "Fin (5404319552844595 / 18014398509481984)"
  have h1: "?vs \<noteq> []" by simp
  have h2: "\<forall>v\<in>set ?vs. co_y64 v \<noteq> NaN" by simp
  have t: "face_threshold64 ?vs ?c = Inr (Fin (1548112371908609 / 562949953421312))"
    by (simp add: face_threshold64_def y_threshold64_def fgt_def ev1 ev2 ev3 ev4)
  from threshold_and_classification64 [OF h1, of ?c] h2
  obtain min_y max_y thr where "face_threshold64 ?vs ?c = Inr thr"
    and r: "regions64 ?vs ?c =
      Inr (map index64 (filter (\<lambda>v. fge (co_y64 v) thr) ?vs),
           map index64 (filter (\<lambda>v. \<not> fge (co_y64 v) thr) ?vs))"
    and "\<forall>v\<in>set ?vs. fle min_y (co_y64 v) \<and> fle (co_y64 v) max_y"
    by blast
  with t have "thr = Fin (1548112371908609 / 562949953421312)" by simp
  with r have "regions64 ?vs ?c = Inr ([2], [0, 1])" by (simp add: fge_def)
  with h1 t show ?thesis by blast
qed

subsection \<open>The threshold does not decrease with the cutoff\<close>




text \<open>
  The increase is not strict: the cutoff 0 and the double nearest to \<open>1e-17\<close> give the
  same threshold, since \<open>1 - 1e-17\<close> rounds to 1.
\<close>

lemma threshold64_not_strict:
  "y_threshold64 (Fin 0) (Fin 2) (Fin 0) = Fin 0 \<and>
   y_threshold64 (Fin 0) (Fin 2) (Fin (6490371073168535 / 649037107316853453566312041152512))
     = Fin 0"
proof -
  have "round64 (649037107316853447075940967983977 / 649037107316853453566312041152512) = Fin 1"
    by (rule round64_eval [where e = "- 1" and n = "2 ^ 53"]) (simp_all add: round_even_def)
  then show ?thesis
    by (simp add: y_threshold64_def round64_0 round64_1 round64_2)
qed

text \<open>
  The bound on the coordinates is needed: when \<open>y_range\<close> overflows to infinity, the
  cutoff 1 gives \<open>inf * 0.0\<close>, a nan, as the threshold, and every vertex is Body.
\<close>

lemma range_overflow:
  "is_double (2 ^ 1023) \<and> is_double (- (2 ^ 1023)) \<and>
   y_threshold64 (Fin (- (2 ^ 1023))) (Fin (2 ^ 1023)) (Fin 1) = NaN \<and>
   regions64 [\<lparr>index64 = 0, co_y64 = Fin (- (2 ^ 1023))\<rparr>,
              \<lparr>index64 = 1, co_y64 = Fin (2 ^ 1023)\<rparr>] (Fin 1) = Inr ([], [0, 1])"
proof -
  have p: "rval (2 powi 1023) = 2 powi 1023" by (rule rval_pow2) simp_all
  then have r: "rval (2 ^ 1023) = 2 ^ 1023" by simp
  then have d: "round64 (2 ^ 1023) = Fin (2 ^ 1023)"
    using round64_finite [of "2 ^ 1023"] by simp
  from r have "rval (- (2 ^ 1023)) = - (2 ^ 1023)" by (simp only: rval_minus)
  then have d': "round64 (- (2 ^ 1023)) = Fin (- (2 ^ 1023))"
    using round64_finite [of "- (2 ^ 1023)"] by simp
  have o: "round64 (2 ^ 1023 - - (2 ^ 1023)) = PInf" by (rule round64_overflow) simp
  have t: "y_threshold64 (Fin (- (2 ^ 1023))) (Fin (2 ^ 1023)) (Fin 1) = NaN"
    by (simp only: y_threshold64_def Let_def fsub.simps o) (simp add: round64_0)
  have mn: "py_min64 (map co_y64 [\<lparr>index64 = 0, co_y64 = Fin (- (2 ^ 1023))\<rparr>,
              \<lparr>index64 = 1, co_y64 = Fin (2 ^ 1023)\<rparr>]) = Inr (Fin (- (2 ^ 1023)))"
    by simp
  have mx: "py_max64 (map co_y64 [\<lparr>index64 = 0, co_y64 = Fin (- (2 ^ 1023))\<rparr>,
              \<lparr>index64 = 1, co_y64 = Fin (2 ^ 1023)\<rparr>]) = Inr (Fin (2 ^ 1023))"
    by (simp add: fgt_def)
  have "regions64 [\<lparr>index64 = 0, co_y64 = Fin (- (2 ^ 1023))\<rparr>,
              \<lparr>index64 = 1, co_y64 = Fin (2 ^ 1023)\<rparr>] (Fin 1) = Inr ([], [0, 1])"
    by (simp only: regions64_def face_threshold64_def mn mx sum.case t)
       (simp add: fge_def)
  with d d' t show ?thesis by (simp only: is_double_def simp_thms)
qed

subsection \<open>The cutoff 0\<close>

text \<open>
  Claim C5 says that the cutoff 0 makes the threshold \<open>max_y\<close> and only the vertices at
  the maximum Face. On the mesh of two vertices with \<open>y = 0\<close> and \<open>y = 2\<close> the maximum
  is 2, the threshold the code computes at cutoff 0 is 0, and the vertex 0, whose
  coordinate is 0, is classified Face.
\<close>

theorem cutoff_zero64_counterexample:
  "py_max64 (map co_y64 [\<lparr>index64 = 0, co_y64 = Fin 0\<rparr>, \<lparr>index64 = 1, co_y64 = Fin 2\<rparr>])
     = Inr (Fin 2) \<and>
   face_threshold64 [\<lparr>index64 = 0, co_y64 = Fin 0\<rparr>, \<lparr>index64 = 1, co_y64 = Fin 2\<rparr>] (Fin 0)
     = Inr (Fin 0) \<and>
   face_threshold64 [\<lparr>index64 = 0, co_y64 = Fin 0\<rparr>, \<lparr>index64 = 1, co_y64 = Fin 2\<rparr>] (Fin 0)
     \<noteq> py_max64 (map co_y64 [\<lparr>index64 = 0, co_y64 = Fin 0\<rparr>, \<lparr>index64 = 1, co_y64 = Fin 2\<rparr>]) \<and>
   regions64 [\<lparr>index64 = 0, co_y64 = Fin 0\<rparr>, \<lparr>index64 = 1, co_y64 = Fin 2\<rparr>] (Fin 0)
     = Inr ([0, 1], [])"
  by (simp add: regions64_def face_threshold64_def y_threshold64_def fgt_def fge_def
        round64_0 round64_1 round64_2)

text \<open>
  Claim C5 as amended: for a non-empty mesh with finite coordinates and the cutoff 0
  the threshold is \<open>max_y - y_range\<close>, where \<open>y_range\<close> is \<open>max_y - min_y\<close> as the float
  subtraction rounds it; when that subtraction is exact (\<open>max_y - min_y\<close> is a double)
  the threshold is \<open>min_y\<close>, every vertex is classified Face and the Body region is
  empty.
\<close>

theorem cutoff_zero64:
  assumes "verts \<noteq> []"
    and "\<forall>v\<in>set verts. \<exists>y. co_y64 v = Fin y \<and> is_double y"
    and "py_min64 (map co_y64 verts) = Inr (Fin min_y)"
    and "py_max64 (map co_y64 verts) = Inr (Fin max_y)"
  shows "face_threshold64 verts (Fin 0)
           = Inr (fsub (Fin max_y) (fsub (Fin max_y) (Fin min_y))) \<and>
         (is_double (max_y - min_y) \<longrightarrow>
            face_threshold64 verts (Fin 0) = Inr (Fin min_y) \<and>
            regions64 verts (Fin 0) = Inr (map index64 verts, []))"
proof -
  obtain m M where mn: "py_min64 (map co_y64 verts) = Inr (Fin m)"
    and mx: "py_max64 (map co_y64 verts) = Inr (Fin M)"
    and pm: "is_double m"
    and b: "\<forall>v\<in>set verts. fle (Fin m) (co_y64 v) \<and> fle (co_y64 v) (Fin M)"
    using finite_bounds64 [OF assms(1,2)] by blast
  from mn assms(3) have m: "m = min_y" by simp
  from mx assms(4) have M: "M = max_y" by simp
  have thr: "face_threshold64 verts (Fin 0)
               = Inr (fsub (Fin max_y) (fsub (Fin max_y) (Fin min_y)))"
    by (simp add: face_threshold64_def assms(3,4) y_threshold64_def round64_1 fmul_one)
  show ?thesis
  proof (intro conjI impI)
    show "face_threshold64 verts (Fin 0)
            = Inr (fsub (Fin max_y) (fsub (Fin max_y) (Fin min_y)))"
      by (rule thr)
  next
    assume ex: "is_double (max_y - min_y)"
    then have "fsub (Fin max_y) (Fin min_y) = Fin (max_y - min_y)" by (simp add: is_double_def)
    moreover have "round64 min_y = Fin min_y" using pm m by (simp add: is_double_def)
    ultimately have t: "face_threshold64 verts (Fin 0) = Inr (Fin min_y)"
      using thr by simp
    then show "face_threshold64 verts (Fin 0) = Inr (Fin min_y)" .
    have f: "filter (\<lambda>v. fge (co_y64 v) (Fin min_y)) verts = verts"
      unfolding filter_id_conv using b m by (simp add: fge_def)
    have g: "filter (\<lambda>v. \<not> fge (co_y64 v) (Fin min_y)) verts = []"
      unfolding filter_empty_conv using b m by (simp add: fge_def)
    show "regions64 verts (Fin 0) = Inr (map index64 verts, [])"
      using t f g by (simp add: regions64_def classify64_filter)
  qed
qed

theorem cutoff_zero64_witness:
  "[\<lparr>index64 = 0, co_y64 = Fin 0\<rparr>, \<lparr>index64 = 1, co_y64 = Fin 2\<rparr>] \<noteq> [] \<and>
   is_double (2 - 0) \<and>
   face_threshold64 [\<lparr>index64 = 0, co_y64 = Fin 0\<rparr>, \<lparr>index64 = 1, co_y64 = Fin 2\<rparr>] (Fin 0)
     = Inr (Fin 0) \<and>
   regions64 [\<lparr>index64 = 0, co_y64 = Fin 0\<rparr>, \<lparr>index64 = 1, co_y64 = Fin 2\<rparr>] (Fin 0)
     = Inr ([0, 1], [])"
proof -
  let ?vs = "[\<lparr>index64 = 0, co_y64 = Fin 0\<rparr>, \<lparr>index64 = 1, co_y64 = Fin 2\<rparr>]"
  have h1: "?vs \<noteq> []" by simp
  have h2: "\<forall>v\<in>set ?vs. \<exists>y. co_y64 v = Fin y \<and> is_double y"
    by (simp add: is_double_def round64_0 round64_2)
  have h3: "py_min64 (map co_y64 ?vs) = Inr (Fin 0)" by simp
  have h4: "py_max64 (map co_y64 ?vs) = Inr (Fin 2)" by (simp add: fgt_def)
  have h5: "is_double (2 - 0)" by (simp add: is_double_def round64_2)
  have m: "map index64 ?vs = [0, 1]" by simp
  from cutoff_zero64 [OF h1 h2 h3 h4] h5
  have "face_threshold64 ?vs (Fin 0) = Inr (Fin 0) \<and>
        regions64 ?vs (Fin 0) = Inr (map index64 ?vs, [])"
    by blast
  with h1 h5 show ?thesis unfolding m by blast
qed

text \<open>
  Without exactness the threshold can miss \<open>min_y\<close>: with the coordinates
  \<open>-9.99999983775159e-18\<close> and 1 the range rounds to 1, the threshold is 0, and the
  vertex at the minimum is Body.
\<close>

lemma cutoff_zero64_rounding:
  "face_threshold64
     [\<lparr>index64 = 0, co_y64 = Fin (- (6044629 / 604462909807314587353088))\<rparr>,
      \<lparr>index64 = 1, co_y64 = Fin 1\<rparr>] (Fin 0) = Inr (Fin 0) \<and>
   regions64
     [\<lparr>index64 = 0, co_y64 = Fin (- (6044629 / 604462909807314587353088))\<rparr>,
      \<lparr>index64 = 1, co_y64 = Fin 1\<rparr>] (Fin 0) = Inr ([1], [0])"
proof -
  have "round64 (604462909807314593397717 / 604462909807314587353088) = Fin 1"
    by (rule round64_eval [where e = 0 and n = "2 ^ 52"]) (simp_all add: round_even_def)
  then show ?thesis
    by (simp add: regions64_def face_threshold64_def y_threshold64_def fgt_def fge_def
          round64_0 round64_1)
qed

subsection \<open>Flat meshes\<close>

text \<open>
  Claim C6 says that on a flat mesh every cutoff gives the threshold \<open>max_y\<close> and makes
  every vertex Face. A cutoff is whatever \<open>float(argv[4])\<close> returns, also an infinity:
  on the flat mesh with \<open>y = 3\<close> twice the cutoff \<open>-inf\<close> gives \<open>0.0 * inf\<close>, a nan, as
  the threshold, and both vertices are Body.
\<close>

theorem flat_mesh64_counterexample:
  "py_max64 (map co_y64 [\<lparr>index64 = 0, co_y64 = Fin 3\<rparr>, \<lparr>index64 = 1, co_y64 = Fin 3\<rparr>])
     = Inr (Fin 3) \<and>
   face_threshold64 [\<lparr>index64 = 0, co_y64 = Fin 3\<rparr>, \<lparr>index64 = 1, co_y64 = Fin 3\<rparr>] NInf
     = Inr NaN \<and>
   regions64 [\<lparr>index64 = 0, co_y64 = Fin 3\<rparr>, \<lparr>index64 = 1, co_y64 = Fin 3\<rparr>] NInf
     = Inr ([], [0, 1])"
  by (simp add: regions64_def face_threshold64_def y_threshold64_def fgt_def fge_def round64_0)

text \<open>
  Claim C6 as amended: for a flat mesh (at least one vertex, all vertices with the same
  finite \<open>y\<close> coordinate) and every finite cutoff, the threshold is \<open>max_y\<close>, the
  classification returns without an exception, and every vertex is in the Face region.
\<close>

theorem flat_mesh_all_face64:
  assumes "verts \<noteq> []" and "\<forall>v\<in>set verts. co_y64 v = Fin y" and "is_double y"
    and "is_double c"
  shows "py_max64 (map co_y64 verts) = Inr (Fin y) \<and>
         face_threshold64 verts (Fin c) = Inr (Fin y) \<and>
         regions64 verts (Fin c) = Inr (map index64 verts, [])"
proof -
  have h: "\<forall>v\<in>set verts. \<exists>z. co_y64 v = Fin z \<and> z = y" using assms(2) by simp
  obtain m M where mn: "py_min64 (map co_y64 verts) = Inr (Fin m)"
    and mx: "py_max64 (map co_y64 verts) = Inr (Fin M)" and e: "m = y" "M = y"
    using finite_bounds64 [OF assms(1) h] by blast
  have t: "round64 (1 - c) = Fin (rval (1 - c))"
    using assms(4) by (rule one_minus_finite)
  have ry: "round64 y = Fin y" using assms(3) by (simp add: is_double_def)
  have thr: "face_threshold64 verts (Fin c) = Inr (Fin y)"
    using mn mx e by (simp add: face_threshold64_def y_threshold64_def t round64_0 ry)
  have f: "filter (\<lambda>v. fge (co_y64 v) (Fin y)) verts = verts"
    unfolding filter_id_conv using assms(2) by (simp add: fge_def)
  have g: "filter (\<lambda>v. \<not> fge (co_y64 v) (Fin y)) verts = []"
    unfolding filter_empty_conv using assms(2) by (simp add: fge_def)
  have "regions64 verts (Fin c) = Inr (map index64 verts, [])"
    using thr f g by (simp add: regions64_def classify64_filter)
  with mx e thr show ?thesis by simp
qed

theorem flat_mesh_all_face64_witness:
  "[\<lparr>index64 = 0, co_y64 = Fin 3\<rparr>, \<lparr>index64 = 1, co_y64 = Fin 3\<rparr>] \<noteq> [] \<and>
   is_double 3 \<and> is_double (1 / 4) \<and>
   face_threshold64 [\<lparr>index64 = 0, co_y64 = Fin 3\<rparr>, \<lparr>index64 = 1, co_y64 = Fin 3\<rparr>]
     (Fin (1 / 4)) = Inr (Fin 3) \<and>
   regions64 [\<lparr>index64 = 0, co_y64 = Fin 3\<rparr>, \<lparr>index64 = 1, co_y64 = Fin 3\<rparr>]
     (Fin (1 / 4)) = Inr ([0, 1], [])"
proof -
  let ?vs = "[\<lparr>index64 = 0, co_y64 = Fin 3\<rparr>, \<lparr>index64 = 1, co_y64 = Fin 3\<rparr>]"
  have h1: "?vs \<noteq> []" by simp
  have h2: "\<forall>v\<in>set ?vs. co_y64 v = Fin 3" by simp
  have h3: "is_double 3" by (simp add: is_double_def round64_3)
  have h4: "is_double (1 / 4)" by (simp add: is_double_def round64_quarter)
  have m: "map index64 ?vs = [0, 1]" by simp
  from flat_mesh_all_face64 [OF h1 h2 h3 h4]
  have "face_threshold64 ?vs (Fin (1 / 4)) = Inr (Fin 3) \<and>
        regions64 ?vs (Fin (1 / 4)) = Inr (map index64 ?vs, [])"
    by blast
  with h1 h3 h4 show ?thesis unfolding m by blast
qed

subsection \<open>The Face region is not empty for a finite cutoff of at most 1\<close>

text \<open>
  Claim C9 says that every cutoff \<open><= 1.0\<close> leaves the Face region non-empty. The
  cutoff \<open>-inf\<close> is \<open><= 1.0\<close>: on the mesh of one vertex with \<open>y = 1\<close> it gives a nan as
  the threshold, and the Face region is empty.
\<close>

theorem face_region64_counterexample:
  "fle NInf (Fin 1) \<and>
   face_threshold64 [\<lparr>index64 = 0, co_y64 = Fin 1\<rparr>] NInf = Inr NaN \<and>
   regions64 [\<lparr>index64 = 0, co_y64 = Fin 1\<rparr>] NInf = Inr ([], [0])"
  by (simp add: regions64_def face_threshold64_def y_threshold64_def fge_def round64_0)

text \<open>
  Claim C9 as amended: for a non-empty mesh whose coordinates are finite doubles of
  magnitude at most \<open>2 ^ 1022\<close> (every single-precision coordinate is) and a finite
  cutoff \<open><= 1.0\<close>, the threshold is \<open><= max_y\<close>, so a vertex that attains \<open>max_y\<close> is
  classified Face and \<open>face_verts\<close> is not empty.
\<close>

theorem face_region_nonempty64:
  assumes "verts \<noteq> []"
    and "\<forall>v\<in>set verts. \<exists>y. co_y64 v = Fin y \<and> is_double y \<and> \<bar>y\<bar> \<le> 2 ^ 1022"
    and "is_double c" and "c \<le> 1"
  shows "\<exists>face_verts body_verts max_y.
           regions64 verts (Fin c) = Inr (face_verts, body_verts) \<and>
           py_max64 (map co_y64 verts) = Inr max_y \<and>
           face_verts \<noteq> [] \<and>
           (\<exists>v\<in>set verts. co_y64 v = max_y \<and> index64 v \<in> set face_verts)"
proof -
  obtain m M u where mn: "py_min64 (map co_y64 verts) = Inr (Fin m)"
    and mx: "py_max64 (map co_y64 verts) = Inr (Fin M)"
    and pm: "is_double m \<and> \<bar>m\<bar> \<le> 2 ^ 1022" and pM: "is_double M \<and> \<bar>M\<bar> \<le> 2 ^ 1022"
    and le: "m \<le> M" and u: "u \<in> set verts" "co_y64 u = Fin M"
    using finite_bounds64 [OF assms(1), of "\<lambda>y. is_double y \<and> \<bar>y\<bar> \<le> 2 ^ 1022"] assms(2)
    by blast
  let ?r = "rval (M - m)" and ?s = "rval (1 - c)"
  let ?p = "round64 (?r * ?s)"
  let ?thr = "fsub (Fin M) ?p"
  let ?f = "map index64 (filter (\<lambda>v. fge (co_y64 v) ?thr) verts)"
  let ?b = "map index64 (filter (\<lambda>v. \<not> fge (co_y64 v) ?thr) verts)"
  have yr: "fsub (Fin M) (Fin m) = Fin ?r" using pm pM by (intro range_finite) simp_all
  have t: "fsub (Fin 1) (Fin c) = Fin ?s" using one_minus_finite [OF assms(3)] by simp
  have "0 \<le> ?r" using le by (intro rval_nonneg) simp
  moreover have "0 \<le> ?s" using assms(4) by (intro rval_nonneg) simp
  ultimately have "0 \<le> ?r * ?s" by simp
  then have "fle (round64 0) ?p" by (rule round64_mono)
  then have "fle (Fin 0) ?p" by (simp only: round64_0)
  with pM have "fle ?thr (Fin M)" by (intro threshold_le_max) simp_all
  then have "fge (co_y64 u) ?thr" using u(2) by (simp add: fge_def)
  with u(1) have mem: "index64 u \<in> set ?f" by auto
  then have "0 < length ?f" by (rule length_pos_if_in_set)
  then have ne: "?f \<noteq> []" by auto
  have "face_threshold64 verts (Fin c) = Inr ?thr"
    by (simp only: face_threshold64_def mn mx sum.case y_threshold64_def Let_def yr t fmul.simps)
  then have "regions64 verts (Fin c) = Inr (?f, ?b)"
    by (simp add: regions64_def classify64_filter)
  with mx ne mem u show ?thesis by blast
qed

theorem face_region_nonempty64_witness:
  "[\<lparr>index64 = 0, co_y64 = Fin 0\<rparr>, \<lparr>index64 = 1, co_y64 = Fin 2\<rparr>] \<noteq> [] \<and>
   is_double (1 / 2) \<and> (1 / 2 :: real) \<le> 1 \<and>
   regions64 [\<lparr>index64 = 0, co_y64 = Fin 0\<rparr>, \<lparr>index64 = 1, co_y64 = Fin 2\<rparr>] (Fin (1 / 2))
     = Inr ([1], [0])"
proof -
  let ?vs = "[\<lparr>index64 = 0, co_y64 = Fin 0\<rparr>, \<lparr>index64 = 1, co_y64 = Fin 2\<rparr>]"
  have h1: "?vs \<noteq> []" by simp
  have h2: "\<forall>v\<in>set ?vs. \<exists>y. co_y64 v = Fin y \<and> is_double y \<and> \<bar>y\<bar> \<le> 2 ^ 1022"
    by (simp add: is_double_def round64_0 round64_2)
  have h3: "is_double (1 / 2)" by (simp add: is_double_def round64_half)
  have h4: "(1 / 2 :: real) \<le> 1" by simp
  have r: "regions64 ?vs (Fin (1 / 2)) = Inr ([1], [0])"
    by (simp add: regions64_def face_threshold64_def y_threshold64_def fgt_def fge_def
          round64_0 round64_1 round64_2 round64_half)
  from face_region_nonempty64 [OF h1 h2 h3 h4] h1 h3 h4 r
  show ?thesis by blast
qed

section \<open>Properties of the registration script\<close>

subsection \<open>The loop when no listed file is new\<close>

lemma add_loop_nothing_new:
  assumes "\<forall>f\<in>set files.
             \<not> path_exists E (WATCH_APP_DIR script_dir @ ''/'' @ f) \<or>
             get_files_by_name E project (path_name (WATCH_APP_DIR script_dir @ ''/'' @ f)) \<noteq> []"
  shows "\<exists>k. add_loop E script_dir files project added_count skipped_count
               = (project, added_count, k)"
  using assms
proof (induction files arbitrary: skipped_count)
  case Nil
  show ?case by simp
next
  case (Cons f files)
  from Cons.prems have rest: "\<forall>f\<in>set files.
             \<not> path_exists E (WATCH_APP_DIR script_dir @ ''/'' @ f) \<or>
             get_files_by_name E project (path_name (WATCH_APP_DIR script_dir @ ''/'' @ f)) \<noteq> []"
    by simp
  from Cons.prems have here:
    "\<not> path_exists E (WATCH_APP_DIR script_dir @ ''/'' @ f) \<or>
     get_files_by_name E project (path_name (WATCH_APP_DIR script_dir @ ''/'' @ f)) \<noteq> []"
    by simp
  show ?case
  proof (cases "path_exists E (WATCH_APP_DIR script_dir @ ''/'' @ f)")
    case False
    then show ?thesis using Cons.IH [OF rest, of skipped_count] by (simp add: Let_def)
  next
    case True
    with here have "get_files_by_name E project (path_name (WATCH_APP_DIR script_dir @ ''/'' @ f)) \<noteq> []"
      by blast
    with True show ?thesis using Cons.IH [OF rest, of "skipped_count + 1"] by (simp add: Let_def)
  qed
qed

lemma saves_iff_added:
  assumes "path_exists E (PROJECT_PATH script_dir)" and "load E disk = Some project"
  shows "(saves (add_files_to_project E script_dir disk) = 0)
           = (fst (snd (add_loop E script_dir NEW_FILES project 0 0)) = 0)"
proof -
  obtain p a k where l: "add_loop E script_dir NEW_FILES project 0 0 = (p, a, k)"
    by (cases "add_loop E script_dir NEW_FILES project 0 0") auto
  obtain d' ok where sv: "save E p disk = (d', ok)"
    by (cases "save E p disk") auto
  show ?thesis
    using assms l sv by (cases ok) (simp_all add: add_files_to_project_def)
qed

lemma no_save_unchanged:
  assumes "path_exists E (PROJECT_PATH script_dir)" and "load E disk = Some project"
    and "fst (snd (add_loop E script_dir NEW_FILES project 0 0)) = 0"
  shows "add_files_to_project E script_dir disk
           = \<lparr>returned = True, project_file = disk, saves = 0\<rparr>"
proof -
  obtain p a k where l: "add_loop E script_dir NEW_FILES project 0 0 = (p, a, k)"
    by (cases "add_loop E script_dir NEW_FILES project 0 0") auto
  with assms(3) have "a = 0" by simp
  with assms(1,2) l show ?thesis by (simp add: add_files_to_project_def)
qed

subsection \<open>The project file is saved only after a file was added\<close>

text \<open>
  Claim C10. Once the project file exists and has been loaded, \<open>project.save()\<close> is
  called exactly when the loop counted at least one added file (\<open>added_count > 0\<close>);
  with \<open>added_count = 0\<close> nothing is saved, the project file keeps its content and the
  function returns \<open>True\<close>. In particular this is so when every listed file is missing
  on disk or has its name in the project already.
\<close>

theorem save_only_when_added:
  assumes "path_exists E (PROJECT_PATH script_dir)" and "load E disk = Some project"
  shows "(saves (add_files_to_project E script_dir disk) = 0)
           = (fst (snd (add_loop E script_dir NEW_FILES project 0 0)) = 0) \<and>
         (fst (snd (add_loop E script_dir NEW_FILES project 0 0)) = 0 \<longrightarrow>
            add_files_to_project E script_dir disk
              = \<lparr>returned = True, project_file = disk, saves = 0\<rparr>) \<and>
         ((\<forall>f\<in>set NEW_FILES.
             \<not> path_exists E (WATCH_APP_DIR script_dir @ ''/'' @ f) \<or>
             get_files_by_name E project (path_name (WATCH_APP_DIR script_dir @ ''/'' @ f)) \<noteq> [])
          \<longrightarrow> add_files_to_project E script_dir disk
                = \<lparr>returned = True, project_file = disk, saves = 0\<rparr>)"
proof (intro conjI impI)
  show "(saves (add_files_to_project E script_dir disk) = 0)
           = (fst (snd (add_loop E script_dir NEW_FILES project 0 0)) = 0)"
    using assms by (rule saves_iff_added)
next
  assume "fst (snd (add_loop E script_dir NEW_FILES project 0 0)) = 0"
  with assms show "add_files_to_project E script_dir disk
              = \<lparr>returned = True, project_file = disk, saves = 0\<rparr>"
    by (rule no_save_unchanged)
next
  assume a: "\<forall>f\<in>set NEW_FILES.
             \<not> path_exists E (WATCH_APP_DIR script_dir @ ''/'' @ f) \<or>
             get_files_by_name E project (path_name (WATCH_APP_DIR script_dir @ ''/'' @ f)) \<noteq> []"
  obtain k where "add_loop E script_dir NEW_FILES project 0 0 = (project, 0, k)"
    using add_loop_nothing_new [OF a] by blast
  then have "fst (snd (add_loop E script_dir NEW_FILES project 0 0)) = 0" by simp
  with assms show "add_files_to_project E script_dir disk
              = \<lparr>returned = True, project_file = disk, saves = 0\<rparr>"
    by (rule no_save_unchanged)
qed

theorem save_only_when_added_witness:
  "path_exists 
     \<lparr>path_exists = (\<lambda>p. p = ''/w/phoneless-hevy.xcodeproj/project.pbxproj'' \<or>
                           p = ''/w/phoneless-hevy Watch App/Services/ContextResolver.swift''),
      load = (\<lambda>d. Some d),
      get_files_by_name = (\<lambda>p n. filter (\<lambda>x. x = n) p),
      add_file = (\<lambda>p path target. (p @ [path_name path], True)),
      save = (\<lambda>p d. (p, True))\<rparr> (PROJECT_PATH ''/w'') \<and>
   load 
     \<lparr>path_exists = (\<lambda>p. p = ''/w/phoneless-hevy.xcodeproj/project.pbxproj'' \<or>
                           p = ''/w/phoneless-hevy Watch App/Services/ContextResolver.swift''),
      load = (\<lambda>d. Some d),
      get_files_by_name = (\<lambda>p n. filter (\<lambda>x. x = n) p),
      add_file = (\<lambda>p path target. (p @ [path_name path], True)),
      save = (\<lambda>p d. (p, True))\<rparr> [''ContextResolver.swift''] = Some [''ContextResolver.swift''] \<and>
   path_exists 
     \<lparr>path_exists = (\<lambda>p. p = ''/w/phoneless-hevy.xcodeproj/project.pbxproj'' \<or>
                           p = ''/w/phoneless-hevy Watch App/Services/ContextResolver.swift''),
      load = (\<lambda>d. Some d),
      get_files_by_name = (\<lambda>p n. filter (\<lambda>x. x = n) p),
      add_file = (\<lambda>p path target. (p @ [path_name path], True)),
      save = (\<lambda>p d. (p, True))\<rparr> (WATCH_APP_DIR ''/w'' @ ''/'' @ ''Services/ContextResolver.swift'') \<and>
   saves (add_files_to_project 
     \<lparr>path_exists = (\<lambda>p. p = ''/w/phoneless-hevy.xcodeproj/project.pbxproj'' \<or>
                           p = ''/w/phoneless-hevy Watch App/Services/ContextResolver.swift''),
      load = (\<lambda>d. Some d),
      get_files_by_name = (\<lambda>p n. filter (\<lambda>x. x = n) p),
      add_file = (\<lambda>p path target. (p @ [path_name path], True)),
      save = (\<lambda>p d. (p, True))\<rparr> ''/w'' [''ContextResolver.swift'']) = 0 \<and>
   add_files_to_project 
     \<lparr>path_exists = (\<lambda>p. p = ''/w/phoneless-hevy.xcodeproj/project.pbxproj'' \<or>
                           p = ''/w/phoneless-hevy Watch App/Services/ContextResolver.swift''),
      load = (\<lambda>d. Some d),
      get_files_by_name = (\<lambda>p n. filter (\<lambda>x. x = n) p),
      add_file = (\<lambda>p path target. (p @ [path_name path], True)),
      save = (\<lambda>p d. (p, True))\<rparr> ''/w'' [''ContextResolver.swift'']
     = \<lparr>returned = True, project_file = [''ContextResolver.swift''], saves = 0\<rparr>"
proof -
  let ?E = "
     \<lparr>path_exists = (\<lambda>p. p = ''/w/phoneless-hevy.xcodeproj/project.pbxproj'' \<or>
                           p = ''/w/phoneless-hevy Watch App/Services/ContextResolver.swift''),
      load = (\<lambda>d. Some d),
      get_files_by_name = (\<lambda>p n. filter (\<lambda>x. x = n) p),
      add_file = (\<lambda>p path target. (p @ [path_name path], True)),
      save = (\<lambda>p d. (p, True))\<rparr>"
  have h1: "path_exists ?E (PROJECT_PATH ''/w'')"
    by (simp add: PROJECT_PATH_def)
  have h2: "load ?E [''ContextResolver.swift''] = Some [''ContextResolver.swift'']"
    by simp
  have h3: "\<forall>f\<in>set NEW_FILES.
              \<not> path_exists ?E (WATCH_APP_DIR ''/w'' @ ''/'' @ f) \<or>
              get_files_by_name ?E [''ContextResolver.swift'']
                (path_name (WATCH_APP_DIR ''/w'' @ ''/'' @ f)) \<noteq> []"
    by (simp add: NEW_FILES_def WATCH_APP_DIR_def path_name_def)
  have h4: "path_exists ?E (WATCH_APP_DIR ''/w'' @ ''/'' @ ''Services/ContextResolver.swift'')"
    by (simp add: WATCH_APP_DIR_def)
  have r: "add_files_to_project ?E ''/w'' [''ContextResolver.swift'']
             = \<lparr>returned = True, project_file = [''ContextResolver.swift''], saves = 0\<rparr>"
    using save_only_when_added [OF h1 h2] h3 by blast
  then have s: "saves (add_files_to_project ?E ''/w'' [''ContextResolver.swift'']) = 0"
    by simp
  from h1 h2 h4 s r show ?thesis by blast
qed

end
